theory Spec2Isabelle
  imports Main "HOL-Library.Word"
begin

section \<open>The Btree verifier of src/btree/bt\_vrfy.c\<close>

text \<open>
  The theory embeds the functions of \<^verbatim>\<open>bt_vrfy.c\<close>. The header
  \<^verbatim>\<open>wt_internal.h\<close> (page layout macros, bit-string macros, constants, the
  error macros) and the collaborators (page cache, scratch pool, Huffman codec, item
  processing) are not in the source tree. A page is therefore given in parsed form,
  with one field for each view the layout macros give of it, and every constant and
  collaborator is a field of the record \<open>env\<close>.

  Addresses, sizes, lengths and item numbers are \<open>uint32_t\<close> in the source and
  \<open>nat\<close> here: the model does not wrap them. Record numbers (\<open>uint64_t\<close>) and tree
  levels are words, since the source adds to and subtracts from them.
\<close>

subsection \<open>Return values and diagnostics\<close>

text \<open>
  The source returns an \<open>int\<close>: 0, \<open>WT_ERROR\<close>, or whatever nonzero value a
  collaborator failed with (\<open>Collab_error\<close>).
\<close>

datatype status = OK | WT_ERROR | Collab_error

text \<open>One constructor for each message given to \<open>__wt_api_db_errx\<close>, with its arguments.\<close>

datatype diag =
    File_too_large
  | Tree_level nat "32 word" "32 word"
  | Record_count nat "64 word" "64 word"
  | Starting_record nat "64 word" "64 word"
  | Starting_record_nonzero nat "64 word"
  | First_key_sorts_before nat
  | Last_key_sorts_after nat
  | Nonzero_lsn nat
  | Invalid_type nat
  | Incorrect_tree_level nat "32 word"
  | Nonzero_unused nat
  | Illegal_item_and_page nat nat
  | Illegal_item_type nat nat nat
  | Incorrect_length nat nat
  | Ovfl_size_mismatch nat nat
  | Incorrectly_sorted nat nat nat
  | Past_end_of_page nat nat
  | Nonexistent_file_pages nat nat
  | Deleted_non_nul nat nat
  | Repeat_count_zero nat nat
  | Should_have_been_compressed nat nat nat
  | Desc_magic | Desc_majorv | Desc_minorv
  | Desc_intlmin | Desc_intlmax | Desc_leafmin | Desc_leafmax
  | Desc_recno_offset | Desc_flags | Desc_repeat_no_len | Desc_unused
  | Ovfl_no_data nat
  | Ovfl_trailing nat
  | Already_verified nat
  | Fragment_never_verified int
  | Fragments_never_verified int int
  | Database_format

subsection \<open>Pages\<close>

type_synonym byte = "8 word"
type_synonym bytes = "byte list"

datatype page_type =
    WT_PAGE_INVALID | WT_PAGE_DESCRIPT
  | WT_PAGE_COL_FIX | WT_PAGE_COL_INT | WT_PAGE_COL_RCC | WT_PAGE_COL_VAR
  | WT_PAGE_DUP_INT | WT_PAGE_DUP_LEAF | WT_PAGE_OVFL
  | WT_PAGE_ROW_INT | WT_PAGE_ROW_LEAF
  | WT_PAGE_OTHER nat

datatype item_type =
    WT_ITEM_KEY | WT_ITEM_KEY_OVFL | WT_ITEM_KEY_DUP | WT_ITEM_KEY_DUP_OVFL
  | WT_ITEM_DATA | WT_ITEM_DATA_OVFL | WT_ITEM_DATA_DUP | WT_ITEM_DATA_DUP_OVFL
  | WT_ITEM_DEL | WT_ITEM_OFF
  | WT_ITEM_OTHER nat

record WT_OFF =
  o_addr :: nat
  o_size :: nat
  o_records :: "64 word"

record WT_OVFL =
  v_addr :: nat
  v_size :: nat

text \<open>
  An item of an item page: \<open>WT_ITEM_TYPE\<close>, \<open>WT_ITEM_LEN\<close>, the bytes at
  \<open>WT_ITEM_BYTE\<close>, the same bytes read as a \<open>WT_OVFL\<close> and as a \<open>WT_OFF\<close>, the
  offset of the item from the page header and the offset of \<open>WT_ITEM_NEXT\<close>.
\<close>

record WT_ITEM =
  it_type :: item_type
  it_len :: nat
  it_byte :: bytes
  it_ovfl :: WT_OVFL
  it_off :: WT_OFF
  it_pos :: nat
  it_next :: nat

text \<open>
  \<open>WT_ROW\<close>: the key is either the key's bytes, or (when \<open>WT_KEY_PROCESS\<close> holds)
  the on-page item that has to be processed first; \<open>r_off\<close> is
  \<open>WT_ITEM_BYTE_OFF(rip->data)\<close>.
\<close>

datatype rowkey = Key_bytes bytes | Key_item WT_ITEM

record WT_ROW =
  r_key :: rowkey
  r_off :: WT_OFF

record WT_PAGE_DESC =
  d_magic :: nat
  d_majorv :: nat
  d_minorv :: nat
  d_intlmin :: nat
  d_intlmax :: nat
  d_leafmin :: nat
  d_leafmax :: nat
  d_recno_offset :: "64 word"
  d_fixed_len :: nat
  d_flags :: "32 word"
  d_unused1 :: bytes
  d_unused2 :: bytes

text \<open>
  A page: \<open>addr\<close>, \<open>size\<close> and \<open>records\<close> of \<open>WT_PAGE\<close>, the fields of its
  \<open>WT_PAGE_HDR\<close> (\<open>h_u\<close> is the union \<open>u.datalen\<close> / \<open>u.entries\<close>), the bytes
  from \<open>WT_PAGE_BYTE\<close> to the end of the page, the items \<open>WT_ITEM_FOREACH\<close> walks,
  the entries \<open>WT_OFF_FOREACH\<close> walks, the descriptor record, and the in-memory index (\<open>u.irow\<close>, \<open>u.icol\<close>; \<open>p_indx\<close>
  tells whether \<open>u.indx\<close> is set).
\<close>

record WT_PAGE =
  p_addr :: nat
  p_size :: nat
  p_records :: "64 word"
  h_type :: page_type
  h_level :: "32 word"
  h_start_recno :: "64 word"
  h_lsn0 :: "32 word"
  h_lsn1 :: "32 word"
  h_unused0 :: byte
  h_unused1 :: byte
  h_u :: nat
  p_byte :: bytes
  p_items :: "WT_ITEM list"
  p_offs :: "WT_OFF list"
  p_desc :: WT_PAGE_DESC
  p_indx :: bool
  p_irow :: "WT_ROW list"
  p_icol :: "WT_OFF list"

subsection \<open>The environment: configuration, constants and collaborators\<close>

text \<open>
  \<open>DB\<close>/\<open>IDB\<close> fields, the constants of the missing header, and the
  collaborators. \<open>page_in\<close> and \<open>ovfl_in\<close> give the page or fail (a restart is
  retried by the source until it gives one of the two); \<open>item_process\<close> fails or
  gives the scratch bytes and the overflow page it pinned, if any; a Huffman codec
  fails or gives the decoded bytes; \<open>scr_pool\<close> is the number of scratch buffers
  \<open>__wt_scr_alloc\<close> can hand out before it fails.
\<close>

record env =
  allocsize :: nat
  file_size :: nat
  root_addr :: nat
  root_size :: nat
  fixed_len :: nat
  intlmin :: nat
  intlmax :: nat
  leafmin :: nat
  leafmax :: nat
  btree_compare :: "bytes \<Rightarrow> bytes \<Rightarrow> int"
  btree_compare_dup :: "bytes \<Rightarrow> bytes \<Rightarrow> int"
  huffman_key :: "(bytes \<Rightarrow> bytes option) option"
  huffman_data :: "(bytes \<Rightarrow> bytes option) option"
  INT_MAX :: nat
  WT_NOLEVEL :: "32 word"
  WT_LLEAF :: "32 word"
  WT_FIX_DELETE_BYTE :: byte
  WT_FIX_DELETE_ISSET :: "byte \<Rightarrow> bool"
  sizeof_WT_ITEM :: nat
  sizeof_WT_OVFL :: nat
  sizeof_WT_OFF :: nat
  sizeof_WT_PAGE_HDR :: nat
  WT_HDR_BYTES_TO_ALLOC :: "nat \<Rightarrow> nat"
  WT_BTREE_MAGIC :: nat
  WT_BTREE_MAJOR_VERSION :: nat
  WT_BTREE_MINOR_VERSION :: nat
  WT_PAGE_DESC_MASK :: "32 word"
  WT_PAGE_DESC_REPEAT :: "32 word"
  bit_alloc_ok :: bool
  scr_pool :: int
  page_in :: "nat \<Rightarrow> nat \<Rightarrow> WT_PAGE option"
  page_inmem :: "WT_PAGE \<Rightarrow> WT_PAGE option"
  ovfl_in :: "WT_OVFL \<Rightarrow> WT_PAGE option"
  item_process :: "WT_ITEM \<Rightarrow> (bytes \<times> WT_PAGE option) option"

subsection \<open>The verifier's state\<close>

text \<open>
  \<open>WT_VSTUFF\<close> (\<open>frags\<close>, \<open>fragbits\<close>, \<open>f\<close>, \<open>fcnt\<close>, \<open>leaf\<close>) and what
  the verifier does to its surroundings: the diagnostics it emitted (\<open>errs\<close>), the
  calls of the progress callback (\<open>progress\<close>), the pages it holds pinned
  (\<open>pins\<close>, counted up by \<open>page_in\<close> and down by \<open>page_out\<close>) and the scratch
  buffers it holds (\<open>scr\<close>). The bit string is the set of its set bits.
\<close>

type_synonym bitstr = "int set"

record vstate =
  frags :: nat
  fragbits :: "bitstr option"
  f_set :: bool
  fcnt :: nat
  leaf :: "WT_PAGE option"
  errs :: "diag list"
  progress :: "nat list"
  pins :: int
  scr :: int

definition errx :: "diag \<Rightarrow> vstate \<Rightarrow> vstate" where
  "errx d s = s\<lparr>errs := errs s @ [d]\<rparr>"

definition page_out :: "vstate \<Rightarrow> vstate" where
  "page_out s = s\<lparr>pins := pins s - 1\<rparr>"

definition pin :: "vstate \<Rightarrow> vstate" where
  "pin s = s\<lparr>pins := pins s + 1\<rparr>"

definition WT_OFF_TO_ADDR :: "env \<Rightarrow> nat \<Rightarrow> nat" where
  "WT_OFF_TO_ADDR db off = off div allocsize db"

definition WT_ADDR_TO_OFF :: "env \<Rightarrow> nat \<Rightarrow> nat" where
  "WT_ADDR_TO_OFF db addr = addr * allocsize db"

subsection \<open>The bit string\<close>

text \<open>
  Modelled from the spec: the macros \<open>bit_test\<close>, \<open>bit_set\<close>, \<open>bit_nset\<close> and
  \<open>bit_ffc\<close> of the bit-string header, which is not in the source tree. \<open>bit_nset\<close>
  sets the bits from \<open>start\<close> to \<open>stop\<close>, both included; \<open>bit_ffc\<close> gives the
  first clear bit among the first \<open>nbits\<close>, or -1.
\<close>

definition bit_test :: "bitstr \<Rightarrow> int \<Rightarrow> bool" where
  "bit_test bits i = (i \<in> bits)"

definition bit_set :: "bitstr \<Rightarrow> int \<Rightarrow> bitstr" where
  "bit_set bits i = insert i bits"

definition bit_nset :: "bitstr \<Rightarrow> int \<Rightarrow> int \<Rightarrow> bitstr" where
  "bit_nset bits start stop = bits \<union> {start..stop}"

definition bit_ffc :: "bitstr \<Rightarrow> int \<Rightarrow> int" where
  "bit_ffc bits nbits =
     (case find (\<lambda>i. \<not> bit_test bits i) (map int [0..<nat nbits]) of
        None \<Rightarrow> -1 | Some i \<Rightarrow> i)"

subsection \<open>\<open>__wt_bt_verify_addfrag\<close>\<close>

definition wt_bt_verify_addfrag :: "env \<Rightarrow> WT_PAGE \<Rightarrow> vstate \<Rightarrow> status \<times> vstate" where
  "wt_bt_verify_addfrag db page vs =
     (let addr = p_addr page;
          n = WT_OFF_TO_ADDR db (p_size page);
          bits = the (fragbits vs)
      in if list_ex (\<lambda>i. bit_test bits (int addr + int i)) [0..<n]
         then (WT_ERROR, errx (Already_verified addr) vs)
         else (OK, vs\<lparr>fragbits := Some (bit_nset bits (int addr) (int addr + (int n - 1)))\<rparr>))"

subsection \<open>\<open>__wt_bt_verify_checkfrag\<close>\<close>

text \<open>
  The \<open>for (;;)\<close> loop. Each turn that finds a clear bit sets it, so the number of
  clear bits among the first \<open>n\<close> goes down and the loop ends.
\<close>

lemma bit_ffc_found:
  "bit_ffc bits n \<noteq> -1 \<Longrightarrow> 0 \<le> bit_ffc bits n \<and> bit_ffc bits n < n \<and> bit_ffc bits n \<notin> bits"
  by (auto simp: bit_ffc_def bit_test_def split: option.splits dest!: find_Some_iff[THEN iffD1])

function checkfrag_loop ::
  "int \<Rightarrow> bitstr \<Rightarrow> int \<Rightarrow> int \<Rightarrow> status \<Rightarrow> diag list \<Rightarrow> status \<times> bitstr \<times> diag list" where
  "checkfrag_loop n bits ffc_start ffc_end ret out =
     (let ffc = bit_ffc bits n in
      if ffc \<noteq> -1 \<and> ffc_start = -1
        then checkfrag_loop n (bit_set bits ffc) ffc ffc ret out
      else if ffc \<noteq> -1 \<and> ffc_end = ffc - 1
        then checkfrag_loop n (bit_set bits ffc) ffc_start ffc ret out
      else
        let bits' = (if ffc \<noteq> -1 then bit_set bits ffc else bits);
            ret' = (if ffc_start \<noteq> -1 then WT_ERROR else ret);
            out' = (if ffc_start \<noteq> -1
                    then out @ [if ffc_start = ffc_end
                                then Fragment_never_verified ffc_start
                                else Fragments_never_verified ffc_start ffc_end]
                    else out)
        in if ffc = -1 then (ret', bits', out')
           else checkfrag_loop n bits' ffc ffc ret' out')"
  by pat_completeness auto
lemma clear_card_less:
  assumes "bit_ffc bits n \<noteq> -1"
  shows "card {i. 0 \<le> i \<and> i < n \<and> i \<notin> bit_set bits (bit_ffc bits n)}
       < card {i. 0 \<le> i \<and> i < n \<and> i \<notin> bits}"
proof -
  let ?x = "bit_ffc bits n"
  have fin: "finite {i. 0 \<le> i \<and> i < n \<and> i \<notin> bits}"
    by (rule finite_subset[of _ "{0..<n}"]) auto
  have mem: "?x \<in> {i. 0 \<le> i \<and> i < n \<and> i \<notin> bits}"
    using assms bit_ffc_found[of bits n] by simp
  have eq: "{i. 0 \<le> i \<and> i < n \<and> i \<notin> bit_set bits ?x}
               = {i. 0 \<le> i \<and> i < n \<and> i \<notin> bits} - {?x}"
    by (auto simp: bit_set_def)
  show ?thesis
    unfolding eq by (rule card_Diff1_less[OF fin mem])
qed

termination checkfrag_loop
  by (relation "measure (\<lambda>(n, bits, _). card {i. 0 \<le> i \<and> i < n \<and> i \<notin> bits})")
     (auto simp: clear_card_less)

declare checkfrag_loop.simps [simp del]


definition wt_bt_verify_checkfrag :: "env \<Rightarrow> vstate \<Rightarrow> status \<times> vstate" where
  "wt_bt_verify_checkfrag db vs =
     (case checkfrag_loop (int (frags vs)) (the (fragbits vs)) (-1) (-1) OK [] of
        (ret, bits, out) \<Rightarrow> (ret, vs\<lparr>fragbits := Some bits, errs := errs vs @ out\<rparr>))"



subsection \<open>The error exits shared by the page walks\<close>

definition wt_bt_verify_eop :: "nat \<Rightarrow> nat \<Rightarrow> vstate \<Rightarrow> status \<times> vstate" where
  "wt_bt_verify_eop entry_num addr vs = (WT_ERROR, errx (Past_end_of_page entry_num addr) vs)"

definition wt_bt_verify_eof :: "nat \<Rightarrow> nat \<Rightarrow> vstate \<Rightarrow> status \<times> vstate" where
  "wt_bt_verify_eof entry_num addr vs = (WT_ERROR, errx (Nonexistent_file_pages entry_num addr) vs)"

definition wt_bt_verify_delfmt :: "nat \<Rightarrow> nat \<Rightarrow> vstate \<Rightarrow> status \<times> vstate" where
  "wt_bt_verify_delfmt entry_num addr vs = (WT_ERROR, errx (Deleted_non_nul entry_num addr) vs)"

text \<open>\<open>WT_ILLEGAL_FORMAT\<close>: the \<open>default:\<close> of a switch over the page type.\<close>

definition wt_database_format :: "vstate \<Rightarrow> status \<times> vstate" where
  "wt_database_format vs = (WT_ERROR, errx Database_format vs)"

subsection \<open>\<open>__wt_bt_verify_page_col_int\<close>\<close>

text \<open>
  \<open>WT_OFF_FOREACH\<close>: entry \<open>k\<close> (from 0) starts \<open>k * sizeof(WT_OFF)\<close> bytes after the
  page header.
\<close>

fun col_int_loop :: "env \<Rightarrow> WT_PAGE \<Rightarrow> WT_OFF list \<Rightarrow> nat \<Rightarrow> vstate \<Rightarrow> status \<times> vstate" where
  "col_int_loop db page [] entry_num vs = (OK, vs)"
| "col_int_loop db page (off # offs) entry_num vs =
     (if sizeof_WT_PAGE_HDR db + entry_num * sizeof_WT_OFF db + sizeof_WT_OFF db > p_size page
        then wt_bt_verify_eop (entry_num + 1) (p_addr page) vs
      else if WT_ADDR_TO_OFF db (o_addr off) + o_size off > file_size db
        then wt_bt_verify_eof (entry_num + 1) (p_addr page) vs
      else col_int_loop db page offs (entry_num + 1) vs)"

definition wt_bt_verify_page_col_int :: "env \<Rightarrow> WT_PAGE \<Rightarrow> vstate \<Rightarrow> status \<times> vstate" where
  "wt_bt_verify_page_col_int db page vs = col_int_loop db page (p_offs page) 0 vs"

subsection \<open>\<open>__wt_bt_verify_page_col_fix\<close> and \<open>__wt_bt_verify_page_col_rcc\<close>\<close>

text \<open>
  The test both walks make of a payload \<open>p\<close>: when \<open>WT_FIX_DELETE_ISSET\<close> holds of
  its first byte, that byte must be \<open>WT_FIX_DELETE_BYTE\<close> and the bytes 1 to
  \<open>fixed_len - 1\<close> must be nul. \<open>True\<close> is the jump to \<open>delfmt\<close>.
\<close>

definition delfmt_bad :: "env \<Rightarrow> bytes \<Rightarrow> bool" where
  "delfmt_bad db p \<longleftrightarrow>
     WT_FIX_DELETE_ISSET db (p ! 0) \<and>
     (p ! 0 \<noteq> WT_FIX_DELETE_BYTE db \<or> list_ex (\<lambda>j. p ! j \<noteq> 0) [1..<fixed_len db])"

text \<open>
  \<open>WT_FIX_FOREACH\<close>: \<open>data\<close> holds the bytes from the current entry to the end of the
  page, \<open>i\<close> counts the entries left.
\<close>

fun col_fix_loop :: "env \<Rightarrow> nat \<Rightarrow> bytes \<Rightarrow> nat \<Rightarrow> nat \<Rightarrow> vstate \<Rightarrow> status \<times> vstate" where
  "col_fix_loop db addr data 0 entry_num vs = (OK, vs)"
| "col_fix_loop db addr data (Suc i) entry_num vs =
     (if fixed_len db > length data then wt_bt_verify_eop (entry_num + 1) addr vs
      else if delfmt_bad db data then wt_bt_verify_delfmt (entry_num + 1) addr vs
      else col_fix_loop db addr (drop (fixed_len db) data) i (entry_num + 1) vs)"

definition wt_bt_verify_page_col_fix :: "env \<Rightarrow> WT_PAGE \<Rightarrow> vstate \<Rightarrow> status \<times> vstate" where
  "wt_bt_verify_page_col_fix db page vs =
     col_fix_loop db (p_addr page) (p_byte page) (h_u page) 0 vs"

text \<open>
  \<open>WT_RCC_REPEAT_COUNT\<close> reads the \<open>uint16_t\<close> at the start of an entry and
  \<open>WT_RCC_REPEAT_DATA\<close> is what follows it. The count is read low byte first
  here; the two tests made of it (\<open>== 0\<close> and \<open>< UINT16_MAX\<close>) do not depend on the
  byte order.
\<close>

definition WT_RCC_REPEAT_COUNT :: "bytes \<Rightarrow> nat" where
  "WT_RCC_REPEAT_COUNT data = unat (data ! 0) + 256 * unat (data ! 1)"

definition WT_RCC_REPEAT_DATA :: "bytes \<Rightarrow> bytes" where
  "WT_RCC_REPEAT_DATA data = drop 2 data"

definition UINT16_MAX :: nat where
  "UINT16_MAX = 65535"

text \<open>
  \<open>WT_RCC_REPEAT_FOREACH\<close>: \<open>data\<close> and \<open>last_data\<close> hold the bytes from an entry to
  the end of the page. \<open>memcmp\<close> over \<open>fixed_len\<close> bytes is the equality of the
  two payloads.
\<close>

fun col_rcc_loop ::
  "env \<Rightarrow> nat \<Rightarrow> bytes \<Rightarrow> nat \<Rightarrow> nat \<Rightarrow> bytes option \<Rightarrow> vstate \<Rightarrow> status \<times> vstate" where
  "col_rcc_loop db addr data 0 entry_num last_data vs = (OK, vs)"
| "col_rcc_loop db addr data (Suc i) entry_num last_data vs =
     (if fixed_len db + 2 > length data then wt_bt_verify_eop (entry_num + 1) addr vs
      else if WT_RCC_REPEAT_COUNT data = 0
        then (WT_ERROR, errx (Repeat_count_zero (entry_num + 1) addr) vs)
      else if delfmt_bad db (WT_RCC_REPEAT_DATA data)
        then wt_bt_verify_delfmt (entry_num + 1) addr vs
      else if (case last_data of None \<Rightarrow> False
               | Some l \<Rightarrow>
                   take (fixed_len db) (WT_RCC_REPEAT_DATA l) =
                   take (fixed_len db) (WT_RCC_REPEAT_DATA data) \<and>
                   WT_RCC_REPEAT_COUNT l < UINT16_MAX)
        then (WT_ERROR, errx (Should_have_been_compressed (entry_num + 1) entry_num addr) vs)
      else col_rcc_loop db addr (drop (fixed_len db + 2) data) i (entry_num + 1) (Some data) vs)"

definition wt_bt_verify_page_col_rcc :: "env \<Rightarrow> WT_PAGE \<Rightarrow> vstate \<Rightarrow> status \<times> vstate" where
  "wt_bt_verify_page_col_rcc db page vs =
     col_rcc_loop db (p_addr page) (p_byte page) (h_u page) 0 None vs"

subsection \<open>\<open>__wt_bt_verify_page_desc\<close>\<close>

text \<open>
  Each failed test emits its message and sets \<open>ret\<close>; the function goes on. In the
  two loops over the unused fields the pointer \<open>p\<close> is never advanced, so each loop
  tests the first byte of its field, and the jump to \<open>unused_not_clear\<close> lands in
  the body of the second loop with the counter of the first: the message is emitted
  once for each turn left.
\<close>

definition desc_checks :: "env \<Rightarrow> WT_PAGE_DESC \<Rightarrow> diag list" where
  "desc_checks db desc =
     (if d_magic desc \<noteq> WT_BTREE_MAGIC db then [Desc_magic] else []) @
     (if d_majorv desc \<noteq> WT_BTREE_MAJOR_VERSION db then [Desc_majorv] else []) @
     (if d_minorv desc \<noteq> WT_BTREE_MINOR_VERSION db then [Desc_minorv] else []) @
     (if d_intlmin desc \<noteq> intlmin db then [Desc_intlmin] else []) @
     (if d_intlmax desc \<noteq> intlmax db then [Desc_intlmax] else []) @
     (if d_leafmin desc \<noteq> leafmin db then [Desc_leafmin] else []) @
     (if d_leafmax desc \<noteq> leafmax db then [Desc_leafmax] else []) @
     (if d_recno_offset desc \<noteq> 0 then [Desc_recno_offset] else []) @
     (if and (d_flags desc) (not (WT_PAGE_DESC_MASK db)) \<noteq> 0 then [Desc_flags] else []) @
     (if d_fixed_len desc = 0 \<and> and (d_flags desc) (WT_PAGE_DESC_REPEAT db) \<noteq> 0
      then [Desc_repeat_no_len] else []) @
     (if d_unused1 desc \<noteq> [] \<and> hd (d_unused1 desc) \<noteq> 0
        then replicate (length (d_unused1 desc)) Desc_unused
      else if d_unused2 desc \<noteq> [] \<and> hd (d_unused2 desc) \<noteq> 0
        then replicate (length (d_unused2 desc)) Desc_unused
      else [])"

definition wt_bt_verify_page_desc :: "env \<Rightarrow> WT_PAGE \<Rightarrow> vstate \<Rightarrow> status \<times> vstate" where
  "wt_bt_verify_page_desc db page vs =
     (let ds = desc_checks db (p_desc page)
      in (if ds = [] then OK else WT_ERROR, vs\<lparr>errs := errs vs @ ds\<rparr>))"

subsection \<open>\<open>__wt_bt_verify_page_ovfl\<close>\<close>

text \<open>
  The bytes after the overflow record are \<open>drop datalen\<close> of the page's bytes. (A
  \<open>datalen\<close> beyond the page makes the source read outside the page; the walk
  over no bytes stands for it here.)
\<close>

definition wt_bt_verify_page_ovfl :: "env \<Rightarrow> WT_PAGE \<Rightarrow> vstate \<Rightarrow> status \<times> vstate" where
  "wt_bt_verify_page_ovfl db page vs =
     (if h_u page = 0 then (WT_ERROR, errx (Ovfl_no_data (p_addr page)) vs)
      else if list_ex (\<lambda>b. b \<noteq> 0) (drop (h_u page) (p_byte page))
        then (WT_ERROR, errx (Ovfl_trailing (p_addr page)) vs)
      else (OK, vs))"

subsection \<open>Scratch buffers\<close>

definition scr_alloc :: "env \<Rightarrow> vstate \<Rightarrow> vstate option" where
  "scr_alloc db vs = (if scr vs < scr_pool db then Some (vs\<lparr>scr := scr vs + 1\<rparr>) else None)"

definition scr_release :: "vstate \<Rightarrow> vstate" where
  "scr_release vs = vs\<lparr>scr := scr vs - 1\<rparr>"

subsection \<open>\<open>__wt_bt_verify_cmp\<close>\<close>

text \<open>The switch that sets the comparison function; \<open>None\<close> is its \<open>default:\<close>.\<close>

definition cmp_func :: "env \<Rightarrow> page_type \<Rightarrow> (bytes \<Rightarrow> bytes \<Rightarrow> int) option" where
  "cmp_func db t =
     (case t of
        WT_PAGE_DUP_INT \<Rightarrow> Some (btree_compare_dup db)
      | WT_PAGE_DUP_LEAF \<Rightarrow> Some (btree_compare_dup db)
      | WT_PAGE_ROW_INT \<Rightarrow> Some (btree_compare db)
      | WT_PAGE_ROW_LEAF \<Rightarrow> Some (btree_compare db)
      | _ \<Rightarrow> None)"

text \<open>
  The label \<open>err\<close>: the scratch buffers and overflow pages that are set are
  released.
\<close>

definition cmp_err :: "bool \<Rightarrow> bool \<Rightarrow> bool \<Rightarrow> bool \<Rightarrow> vstate \<Rightarrow> vstate" where
  "cmp_err scratch1 scratch2 child_ovfl_page parent_ovfl_page vs =
     (let vs = (if scratch1 then scr_release vs else vs);
          vs = (if scratch2 then scr_release vs else vs);
          vs = (if child_ovfl_page then page_out vs else vs);
          vs = (if parent_ovfl_page then page_out vs else vs)
      in vs)"

text \<open>The bytes a processed key is compared by: the overflow page's data, or the scratch buffer.\<close>

definition processed_key :: "bytes \<times> WT_PAGE option \<Rightarrow> bytes" where
  "processed_key r = (case snd r of Some ovfl \<Rightarrow> take (h_u ovfl) (p_byte ovfl) | None \<Rightarrow> fst r)"

text \<open>
  The comparison itself, once both keys are at hand (the code after the comment
  \<open>Compare the parent's key against the child's key\<close>).
\<close>

definition cmp_result :: "bool \<Rightarrow> int \<Rightarrow> nat \<Rightarrow> vstate \<Rightarrow> status \<times> vstate" where
  "cmp_result first_entry cmp addr vs =
     (let (ret, vs) = (if first_entry \<and> cmp < 0
                       then (WT_ERROR, errx (First_key_sorts_before addr) vs) else (OK, vs));
          (ret, vs) = (if \<not> first_entry \<and> cmp \<ge> 0
                       then (WT_ERROR, errx (Last_key_sorts_after addr) vs) else (ret, vs))
      in (ret, vs))"

text \<open>
  The parent's side and the rest of the function, given the child's key \<open>cd\<close> and
  what the child's side holds (\<open>scratch1\<close>, \<open>child_ovfl_page\<close>). A failure of
  \<open>__wt_bt_item_process\<close> on the parent's key is under \<open>WT_RET\<close>: the function
  returns at once, without going through \<open>err\<close>.
\<close>

definition cmp_parent ::
  "env \<Rightarrow> (bytes \<Rightarrow> bytes \<Rightarrow> int) \<Rightarrow> WT_ROW \<Rightarrow> WT_PAGE \<Rightarrow> bool \<Rightarrow> bytes \<Rightarrow> bool \<Rightarrow> bool \<Rightarrow>
   vstate \<Rightarrow> status \<times> vstate" where
  "cmp_parent db func parent_rip child first_entry cd scratch1 child_ovfl_page vs =
     (case r_key parent_rip of
        Key_item item \<Rightarrow>
          (case scr_alloc db vs of
             None \<Rightarrow> (Collab_error, cmp_err scratch1 False child_ovfl_page False vs)
           | Some vs \<Rightarrow>
               (case item_process db item of
                  None \<Rightarrow> (Collab_error, vs)
                | Some r \<Rightarrow>
                    (let vs = (if snd r \<noteq> None then pin vs else vs);
                         (ret, vs) = cmp_result first_entry (func cd (processed_key r)) (p_addr child) vs
                     in (ret, cmp_err scratch1 True child_ovfl_page (snd r \<noteq> None) vs))))
      | Key_bytes pd \<Rightarrow>
          (let (ret, vs) = cmp_result first_entry (func cd pd) (p_addr child) vs
           in (ret, cmp_err scratch1 False child_ovfl_page False vs)))"

definition wt_bt_verify_cmp ::
  "env \<Rightarrow> WT_ROW \<Rightarrow> WT_PAGE \<Rightarrow> bool \<Rightarrow> vstate \<Rightarrow> status \<times> vstate" where
  "wt_bt_verify_cmp db parent_rip child first_entry vs =
     (case cmp_func db (h_type child) of
        None \<Rightarrow> wt_database_format vs
      | Some func \<Rightarrow>
          (let child_rip = (if first_entry then p_irow child ! 0
                            else p_irow child ! (length (p_irow child) - 1))
           in case r_key child_rip of
                Key_item item \<Rightarrow>
                  (case scr_alloc db vs of
                     None \<Rightarrow> (Collab_error, vs)
                   | Some vs \<Rightarrow>
                       (case item_process db item of
                          None \<Rightarrow> (Collab_error, cmp_err True False False False vs)
                        | Some r \<Rightarrow>
                            cmp_parent db func parent_rip child first_entry (processed_key r)
                              True (snd r \<noteq> None) (if snd r \<noteq> None then pin vs else vs)))
              | Key_bytes cd \<Rightarrow>
                  cmp_parent db func parent_rip child first_entry cd False False vs))"


subsection \<open>\<open>__wt_bt_verify_page\<close>: the checks of the page header\<close>

text \<open>
  The model is of the calls the verifier makes itself, where \<open>vs_arg\<close> is never
  \<open>NULL\<close>, and of a build without \<open>HAVE_DIAGNOSTIC\<close>.
\<close>

definition page_progress :: "vstate \<Rightarrow> vstate" where
  "page_progress vs =
     (if f_set vs
      then (let vs = vs\<lparr>fcnt := fcnt vs + 1\<rparr>
            in if fcnt vs mod 10 = 0 then vs\<lparr>progress := progress vs @ [fcnt vs]\<rparr> else vs)
      else vs)"

definition known_type :: "page_type \<Rightarrow> bool" where
  "known_type t = (case t of WT_PAGE_INVALID \<Rightarrow> False | WT_PAGE_OTHER _ \<Rightarrow> False | _ \<Rightarrow> True)"

text \<open>The switch \<open>Check the page level\<close>.\<close>

definition level_check :: "env \<Rightarrow> WT_PAGE \<Rightarrow> vstate \<Rightarrow> status \<times> vstate" where
  "level_check db page vs =
     (let err_level = (WT_ERROR, errx (Incorrect_tree_level (p_addr page) (h_level page)) vs)
      in case h_type page of
           WT_PAGE_DESCRIPT \<Rightarrow> if h_level page \<noteq> WT_NOLEVEL db then err_level else (OK, vs)
         | WT_PAGE_COL_FIX \<Rightarrow> if h_level page \<noteq> WT_LLEAF db then err_level else (OK, vs)
         | WT_PAGE_COL_RCC \<Rightarrow> if h_level page \<noteq> WT_LLEAF db then err_level else (OK, vs)
         | WT_PAGE_COL_VAR \<Rightarrow> if h_level page \<noteq> WT_LLEAF db then err_level else (OK, vs)
         | WT_PAGE_DUP_LEAF \<Rightarrow> if h_level page \<noteq> WT_LLEAF db then err_level else (OK, vs)
         | WT_PAGE_OVFL \<Rightarrow> if h_level page \<noteq> WT_LLEAF db then err_level else (OK, vs)
         | WT_PAGE_ROW_LEAF \<Rightarrow> if h_level page \<noteq> WT_LLEAF db then err_level else (OK, vs)
         | WT_PAGE_COL_INT \<Rightarrow> if h_level page \<le> WT_LLEAF db then err_level else (OK, vs)
         | WT_PAGE_DUP_INT \<Rightarrow> if h_level page \<le> WT_LLEAF db then err_level else (OK, vs)
         | WT_PAGE_ROW_INT \<Rightarrow> if h_level page \<le> WT_LLEAF db then err_level else (OK, vs)
         | _ \<Rightarrow> wt_database_format vs)"

text \<open>Everything \<open>__wt_bt_verify_page\<close> does before the switch \<open>Verify the items on the page\<close>.\<close>

definition verify_page_hdr :: "env \<Rightarrow> WT_PAGE \<Rightarrow> vstate \<Rightarrow> status \<times> vstate" where
  "verify_page_hdr db page vs =
     (let vs = page_progress vs;
          (ret, vs) = (if fragbits vs \<noteq> None then wt_bt_verify_addfrag db page vs else (OK, vs))
      in if ret \<noteq> OK then (ret, vs)
         else if h_lsn0 page \<noteq> 0 \<or> h_lsn1 page \<noteq> 0
           then (WT_ERROR, errx (Nonzero_lsn (p_addr page)) vs)
         else if \<not> known_type (h_type page)
           then (WT_ERROR, errx (Invalid_type (p_addr page)) vs)
         else (let (ret, vs) = level_check db page vs
               in if ret \<noteq> OK then (ret, vs)
                  else if h_unused0 page \<noteq> 0 \<or> h_unused1 page \<noteq> 0
                    then (WT_ERROR, errx (Nonzero_unused (p_addr page)) vs)
                  else (OK, vs)))"

subsection \<open>\<open>__wt_bt_verify_page_item\<close>: the checks of one item\<close>

definition is_ovfl_item :: "item_type \<Rightarrow> bool" where
  "is_ovfl_item t \<longleftrightarrow>
     t = WT_ITEM_KEY_OVFL \<or> t = WT_ITEM_KEY_DUP_OVFL \<or>
     t = WT_ITEM_DATA_OVFL \<or> t = WT_ITEM_DATA_DUP_OVFL"

text \<open>The switch \<open>Check the item's type\<close>: \<open>True\<close> is the jump to \<open>item_vs_page\<close>.\<close>

definition item_vs_page :: "page_type \<Rightarrow> item_type \<Rightarrow> bool" where
  "item_vs_page pt t =
     (case t of
        WT_ITEM_KEY \<Rightarrow> pt \<noteq> WT_PAGE_ROW_INT \<and> pt \<noteq> WT_PAGE_ROW_LEAF
      | WT_ITEM_KEY_OVFL \<Rightarrow> pt \<noteq> WT_PAGE_ROW_INT \<and> pt \<noteq> WT_PAGE_ROW_LEAF
      | WT_ITEM_KEY_DUP \<Rightarrow> pt \<noteq> WT_PAGE_DUP_INT
      | WT_ITEM_KEY_DUP_OVFL \<Rightarrow> pt \<noteq> WT_PAGE_DUP_INT
      | WT_ITEM_DATA \<Rightarrow> pt \<noteq> WT_PAGE_COL_VAR \<and> pt \<noteq> WT_PAGE_ROW_LEAF
      | WT_ITEM_DATA_OVFL \<Rightarrow> pt \<noteq> WT_PAGE_COL_VAR \<and> pt \<noteq> WT_PAGE_ROW_LEAF
      | WT_ITEM_DATA_DUP \<Rightarrow> pt \<noteq> WT_PAGE_DUP_LEAF \<and> pt \<noteq> WT_PAGE_ROW_LEAF
      | WT_ITEM_DATA_DUP_OVFL \<Rightarrow> pt \<noteq> WT_PAGE_DUP_LEAF \<and> pt \<noteq> WT_PAGE_ROW_LEAF
      | WT_ITEM_DEL \<Rightarrow> pt \<noteq> WT_PAGE_COL_VAR
      | WT_ITEM_OFF \<Rightarrow> pt \<noteq> WT_PAGE_DUP_INT \<and> pt \<noteq> WT_PAGE_ROW_INT \<and> pt \<noteq> WT_PAGE_ROW_LEAF
      | WT_ITEM_OTHER _ \<Rightarrow> False)"

text \<open>The switch \<open>Check the item's length\<close>: \<open>True\<close> is the jump to \<open>item_len\<close>.\<close>

definition item_len_bad :: "env \<Rightarrow> WT_ITEM \<Rightarrow> bool" where
  "item_len_bad db item =
     (case it_type item of
        WT_ITEM_KEY_OVFL \<Rightarrow> it_len item \<noteq> sizeof_WT_OVFL db
      | WT_ITEM_KEY_DUP_OVFL \<Rightarrow> it_len item \<noteq> sizeof_WT_OVFL db
      | WT_ITEM_DATA_OVFL \<Rightarrow> it_len item \<noteq> sizeof_WT_OVFL db
      | WT_ITEM_DATA_DUP_OVFL \<Rightarrow> it_len item \<noteq> sizeof_WT_OVFL db
      | WT_ITEM_DEL \<Rightarrow> it_len item \<noteq> 0
      | WT_ITEM_OFF \<Rightarrow> it_len item \<noteq> sizeof_WT_OFF db
      | _ \<Rightarrow> False)"

text \<open>
  The checks of an item up to the one of its references against the end of the file.
  Each failure emits the diagnostic given and leaves the walk with \<open>WT_ERROR\<close>.
\<close>

definition item_checks :: "env \<Rightarrow> WT_PAGE \<Rightarrow> WT_ITEM \<Rightarrow> nat \<Rightarrow> diag option" where
  "item_checks db page item item_num =
     (let addr = p_addr page; t = it_type item
      in if it_pos item + sizeof_WT_ITEM db > p_size page
           then Some (Past_end_of_page item_num addr)
         else if item_vs_page (h_type page) t
           then Some (Illegal_item_and_page item_num addr)
         else if (case t of WT_ITEM_OTHER _ \<Rightarrow> True | _ \<Rightarrow> False)
           then Some (Illegal_item_type item_num addr (case t of WT_ITEM_OTHER k \<Rightarrow> k | _ \<Rightarrow> 0))
         else if item_len_bad db item
           then Some (Incorrect_length item_num addr)
         else if it_next item > p_size page
           then Some (Past_end_of_page item_num addr)
         else if is_ovfl_item t \<and>
                 WT_ADDR_TO_OFF db (v_addr (it_ovfl item)) +
                 WT_HDR_BYTES_TO_ALLOC db (v_size (it_ovfl item)) > file_size db
           then Some (Nonexistent_file_pages item_num addr)
         else if t = WT_ITEM_OFF \<and>
                 WT_ADDR_TO_OFF db (o_addr (it_off item)) + o_size (it_off item) > file_size db
           then Some (Nonexistent_file_pages item_num addr)
         else None)"

subsection \<open>\<open>__wt_bt_verify_page_item\<close>: the sort order\<close>

text \<open>
  One of the three structures \<open>_a\<close>, \<open>_b\<close>, \<open>_c\<close>: the item number, the bytes
  \<open>item\<close> points to (\<open>None\<close> for \<open>NULL\<close>) and the overflow page held. The
  pointers \<open>current\<close>, \<open>last_data\<close> and \<open>last_key\<close> are the three fields of
  \<open>slots\<close>; swapping two pointers swaps two fields.
\<close>

record slot =
  sl_indx :: nat
  sl_item :: "bytes option"
  sl_ovfl :: "WT_PAGE option"

record slots =
  current :: slot
  last_data :: slot
  last_key :: slot

definition slot0 :: slot where
  "slot0 = \<lparr>sl_indx = 0, sl_item = None, sl_ovfl = None\<rparr>"

text \<open>The switch that sets the comparison function: \<open>NULL\<close> on a \<open>WT_PAGE_COL_VAR\<close> page.\<close>

definition item_func :: "env \<Rightarrow> page_type \<Rightarrow> (bytes \<Rightarrow> bytes \<Rightarrow> int) option option" where
  "item_func db t =
     (case t of
        WT_PAGE_COL_VAR \<Rightarrow> Some None
      | WT_PAGE_DUP_INT \<Rightarrow> Some (Some (btree_compare_dup db))
      | WT_PAGE_DUP_LEAF \<Rightarrow> Some (Some (btree_compare_dup db))
      | WT_PAGE_ROW_INT \<Rightarrow> Some (Some (btree_compare db))
      | WT_PAGE_ROW_LEAF \<Rightarrow> Some (Some (btree_compare db))
      | _ \<Rightarrow> None)"

text \<open>
  The switch after \<open>Check the page item sort order\<close>: \<open>None\<close> is the jump to
  \<open>offpagedups\<close>, otherwise \<open>current\<close> is set to the item's bytes on the page or on
  the overflow page read for it. A \<open>WT_ITEM_OTHER\<close> item never gets here.
\<close>

definition item_dbt :: "WT_ITEM \<Rightarrow> nat \<Rightarrow> slot \<Rightarrow> slot option" where
  "item_dbt item item_num cur =
     (case it_type item of
        WT_ITEM_DATA \<Rightarrow> None
      | WT_ITEM_DATA_OVFL \<Rightarrow> None
      | WT_ITEM_DEL \<Rightarrow> None
      | WT_ITEM_OFF \<Rightarrow> None
      | WT_ITEM_OTHER _ \<Rightarrow> Some cur
      | t \<Rightarrow>
          if is_ovfl_item t
          then Some (cur\<lparr>sl_indx := item_num,
                          sl_item := Some (take (v_size (it_ovfl item)) (p_byte (the (sl_ovfl cur))))\<rparr>)
          else Some (cur\<lparr>sl_indx := item_num,
                          sl_item := Some (take (it_len item) (it_byte item))\<rparr>))"

text \<open>
  The switch \<open>Get a decompressed version if necessary\<close>: the codec that applies to
  the item's type, if one is configured. \<open>WT_ITEM_KEY_DUP_OVFL\<close> is in neither case
  of the switch.
\<close>

definition item_codec :: "env \<Rightarrow> item_type \<Rightarrow> (bytes \<Rightarrow> bytes option) option" where
  "item_codec db t =
     (case t of
        WT_ITEM_KEY \<Rightarrow> huffman_key db
      | WT_ITEM_KEY_OVFL \<Rightarrow> huffman_key db
      | WT_ITEM_KEY_DUP \<Rightarrow> huffman_data db
      | WT_ITEM_DATA_DUP \<Rightarrow> huffman_data db
      | WT_ITEM_DATA_DUP_OVFL \<Rightarrow> huffman_data db
      | _ \<Rightarrow> None)"

text \<open>
  The switch \<open>Check the sort order\<close>. \<open>func\<close> is the comparison function of the
  page (\<open>None\<close> for \<open>NULL\<close>). The result is the status, the diagnostics and the
  three pointers.
\<close>

definition sort_check ::
  "(bytes \<Rightarrow> bytes \<Rightarrow> int) option \<Rightarrow> nat \<Rightarrow> item_type \<Rightarrow> slots \<Rightarrow> status \<times> diag list \<times> slots" where
  "sort_check func addr t sl =
     (if t = WT_ITEM_KEY \<or> t = WT_ITEM_KEY_DUP \<or> t = WT_ITEM_KEY_OVFL then
        (if sl_item (last_key sl) \<noteq> None \<and>
            (the func) (the (sl_item (last_key sl))) (the (sl_item (current sl))) \<ge> 0
         then (WT_ERROR,
               [Incorrectly_sorted (sl_indx (last_key sl)) (sl_indx (current sl)) addr], sl)
         else (OK, [], sl\<lparr>last_key := current sl, current := last_key sl\<rparr>))
      else if t = WT_ITEM_DATA_DUP \<or> t = WT_ITEM_DATA_DUP_OVFL then
        (if sl_item (last_data sl) \<noteq> None \<and>
            (the func) (the (sl_item (last_data sl))) (the (sl_item (current sl))) \<ge> 0
         then (WT_ERROR,
               [Incorrectly_sorted (sl_indx (last_data sl)) (sl_indx (current sl)) addr], sl)
         else (OK, [], sl\<lparr>last_data := current sl, current := last_data sl\<rparr>))
      else (OK, [], sl))"

text \<open>
  The three switches together, for one item: set \<open>current\<close>, decode, compare. A
  failure of the codec leaves with the codec's error.
\<close>

definition sort_step ::
  "env \<Rightarrow> (bytes \<Rightarrow> bytes \<Rightarrow> int) option \<Rightarrow> nat \<Rightarrow> WT_ITEM \<Rightarrow> nat \<Rightarrow> slots \<Rightarrow>
   status \<times> diag list \<times> slots" where
  "sort_step db func addr item item_num sl =
     (case item_dbt item item_num (current sl) of
        None \<Rightarrow> (OK, [], sl)
      | Some cur \<Rightarrow>
          (case item_codec db (it_type item) of
             None \<Rightarrow> sort_check func addr (it_type item) (sl\<lparr>current := cur\<rparr>)
           | Some decode \<Rightarrow>
               (case decode (the (sl_item cur)) of
                  None \<Rightarrow> (Collab_error, [], sl\<lparr>current := cur\<rparr>)
                | Some b \<Rightarrow>
                    sort_check func addr (it_type item)
                      (sl\<lparr>current := cur\<lparr>sl_item := Some b\<rparr>\<rparr>))))"


subsection \<open>\<open>__wt_bt_verify_tree\<close>: the checks of a page against its parent\<close>

text \<open>
  \<open>WT_ERR(call)\<close>: \<open>ret\<close> is set to the status of the call, and the function
  leaves through the label \<open>err\<close> when it is not 0. \<open>Some ret\<close> is a jump to
  \<open>err\<close> with that \<open>ret\<close>, \<open>None\<close> is no jump.
\<close>

definition WT_ERR :: "status \<times> vstate \<Rightarrow> status option \<times> vstate" where
  "WT_ERR r = (if fst r \<noteq> OK then Some (fst r) else None, snd r)"

text \<open>
  From \<open>hdr = page->hdr\<close> to the end of the first switch over the page type.
  \<open>parent_rip\<close> is \<open>None\<close> for \<open>NULL\<close>; the source passes it on to
  \<open>__wt_bt_verify_cmp\<close> unchecked. \<open>ret\<close> is 0 here, after the \<open>WT_ERR\<close> around
  \<open>__wt_bt_verify_page\<close>, and the four tests of the level, the record count and
  the starting record number emit their message and leave through \<open>goto err\<close>
  without setting it: they are \<open>Some OK\<close>. Only the comparison with the parent's
  key is made under \<open>WT_ERR\<close>.
\<close>

definition tree_checks ::
  "env \<Rightarrow> WT_ROW option \<Rightarrow> 64 word \<Rightarrow> 32 word \<Rightarrow> WT_OFF \<Rightarrow> WT_PAGE \<Rightarrow> vstate \<Rightarrow>
   status option \<times> vstate" where
  "tree_checks db parent_rip start_recno level off page vs =
     (let is_root = (level = WT_NOLEVEL db);
          col = (let start_recno = (if is_root then 1 else start_recno)
                 in if h_start_recno page \<noteq> start_recno
                    then (Some OK,
                          errx (Starting_record (o_addr off) (h_start_recno page) start_recno) vs)
                    else (None, vs));
          row = (if h_start_recno page \<noteq> 0
                 then (Some OK,
                       errx (Starting_record_nonzero (o_addr off) (h_start_recno page)) vs)
                 else if \<not> is_root
                   then WT_ERR (wt_bt_verify_cmp db (the parent_rip) page True vs)
                 else (None, vs))
      in if \<not> is_root \<and> h_level page \<noteq> level
           then (Some OK, errx (Tree_level (o_addr off) (h_level page) level) vs)
         else if \<not> is_root \<and> p_records page \<noteq> o_records off
           then (Some OK,
                 errx (Record_count (o_addr off) (p_records page) (o_records off)) vs)
         else (case h_type page of
                 WT_PAGE_COL_FIX \<Rightarrow> col
               | WT_PAGE_COL_INT \<Rightarrow> col
               | WT_PAGE_COL_RCC \<Rightarrow> col
               | WT_PAGE_COL_VAR \<Rightarrow> col
               | WT_PAGE_DUP_INT \<Rightarrow> row
               | WT_PAGE_DUP_LEAF \<Rightarrow> row
               | WT_PAGE_ROW_INT \<Rightarrow> row
               | WT_PAGE_ROW_LEAF \<Rightarrow> row
               | _ \<Rightarrow> (None, vs)))"

text \<open>
  The label \<open>err\<close> of \<open>__wt_bt_verify_tree\<close>: the saved leaf, if any, and the page
  are released. \<open>__wt_bt_page_out\<close> is given the address of the pointer and clears
  it.
\<close>

definition release_leaf :: "vstate \<Rightarrow> vstate" where
  "release_leaf vs = (if leaf vs \<noteq> None then (page_out vs)\<lparr>leaf := None\<rparr> else vs)"

definition tree_err :: "status \<Rightarrow> vstate \<Rightarrow> status \<times> vstate" where
  "tree_err ret vs = (ret, page_out (release_leaf vs))"

text \<open>
  The comparison of the saved leaf's last key with the key of the entry about to be
  followed, at the top of the loop over a row or duplicate internal page.
\<close>

definition leaf_cmp :: "env \<Rightarrow> WT_ROW \<Rightarrow> vstate \<Rightarrow> status \<times> vstate" where
  "leaf_cmp db rip vs =
     (case leaf vs of
        None \<Rightarrow> (OK, vs)
      | Some l \<Rightarrow>
          (let (ret, vs) = wt_bt_verify_cmp db rip l False vs
           in if ret \<noteq> OK then (ret, vs) else (OK, (page_out vs)\<lparr>leaf := None\<rparr>)))"

subsection \<open>\<open>__wt_bt_verify_page_item\<close>: scratch buffers and the exit\<close>

text \<open>
  The three \<open>__wt_scr_alloc\<close> calls at the top, made when a Huffman codec is
  configured. \<open>None\<close>: one of them failed, and the label \<open>err\<close> has released the
  ones before it.
\<close>

definition item_scr_alloc :: "env \<Rightarrow> vstate \<Rightarrow> vstate option" where
  "item_scr_alloc db vs =
     (if huffman_key db \<noteq> None \<or> huffman_data db \<noteq> None then
        (case scr_alloc db vs of
           None \<Rightarrow> None
         | Some vs1 \<Rightarrow>
             (case scr_alloc db vs1 of
                None \<Rightarrow> None
              | Some vs2 \<Rightarrow>
                  (case scr_alloc db vs2 of
                     None \<Rightarrow> None
                   | Some vs3 \<Rightarrow> Some vs3)))
      else Some vs)"

text \<open>The label \<open>err\<close>: the overflow pages and the scratch buffers still held are released.\<close>

definition item_err :: "env \<Rightarrow> slots \<Rightarrow> vstate \<Rightarrow> vstate" where
  "item_err db sl vs =
     (let vs = (if sl_ovfl (current sl) \<noteq> None then page_out vs else vs);
          vs = (if sl_ovfl (last_data sl) \<noteq> None then page_out vs else vs);
          vs = (if sl_ovfl (last_key sl) \<noteq> None then page_out vs else vs)
      in if huffman_key db \<noteq> None \<or> huffman_data db \<noteq> None
         then scr_release (scr_release (scr_release vs)) else vs)"

subsection \<open>The switches over the page type\<close>

text \<open>
  \<open>__wt_bt_verify_tree\<close> ends with two switches over the page type: the first
  returns for a leaf page (releasing a column leaf, saving a row or duplicate leaf),
  the second walks the entries of an internal page and has \<open>WT_ILLEGAL_FORMAT_ERR\<close>
  as its default. \<open>page_kind\<close> is the case a page type takes through them.
\<close>

datatype walk_kind = Col_leaf | Row_leaf | Col_int | Row_int | No_kind

definition page_kind :: "page_type \<Rightarrow> walk_kind" where
  "page_kind t =
     (case t of
        WT_PAGE_COL_FIX \<Rightarrow> Col_leaf
      | WT_PAGE_COL_RCC \<Rightarrow> Col_leaf
      | WT_PAGE_COL_VAR \<Rightarrow> Col_leaf
      | WT_PAGE_DUP_LEAF \<Rightarrow> Row_leaf
      | WT_PAGE_ROW_LEAF \<Rightarrow> Row_leaf
      | WT_PAGE_COL_INT \<Rightarrow> Col_int
      | WT_PAGE_DUP_INT \<Rightarrow> Row_int
      | WT_PAGE_ROW_INT \<Rightarrow> Row_int
      | _ \<Rightarrow> No_kind)"

text \<open>
  The switch \<open>Verify the items on the page\<close> of \<open>__wt_bt_verify_page\<close>:
  \<open>item_page\<close> holds of the types that go to \<open>__wt_bt_verify_page_item\<close>, and
  \<open>verify_page_other\<close> is the switch for the other types.
\<close>

definition item_page :: "page_type \<Rightarrow> bool" where
  "item_page t \<longleftrightarrow>
     t = WT_PAGE_COL_VAR \<or> t = WT_PAGE_DUP_INT \<or> t = WT_PAGE_DUP_LEAF \<or>
     t = WT_PAGE_ROW_INT \<or> t = WT_PAGE_ROW_LEAF"

definition verify_page_other :: "env \<Rightarrow> WT_PAGE \<Rightarrow> vstate \<Rightarrow> status \<times> vstate" where
  "verify_page_other db page vs =
     (case h_type page of
        WT_PAGE_DESCRIPT \<Rightarrow> wt_bt_verify_page_desc db page vs
      | WT_PAGE_COL_INT \<Rightarrow> wt_bt_verify_page_col_int db page vs
      | WT_PAGE_COL_FIX \<Rightarrow> wt_bt_verify_page_col_fix db page vs
      | WT_PAGE_COL_RCC \<Rightarrow> wt_bt_verify_page_col_rcc db page vs
      | WT_PAGE_OVFL \<Rightarrow> wt_bt_verify_page_ovfl db page vs
      | _ \<Rightarrow> wt_database_format vs)"

text \<open>
  \<open>Verify overflow references\<close>: the overflow page \<open>current\<close> still holds is
  discarded before the new one is read, and the size in the reference is checked
  against the page read.
\<close>

definition ovfl_discard :: "slots \<Rightarrow> vstate \<Rightarrow> slots \<times> vstate" where
  "ovfl_discard sl vs =
     (sl\<lparr>current := (current sl)\<lparr>sl_ovfl := None\<rparr>\<rparr>,
      if sl_ovfl (current sl) \<noteq> None then page_out vs else vs)"

definition ovfl_size_check :: "WT_PAGE \<Rightarrow> WT_ITEM \<Rightarrow> nat \<Rightarrow> WT_PAGE \<Rightarrow> vstate \<Rightarrow> status \<times> vstate" where
  "ovfl_size_check page item item_num opage vs =
     (if v_size (it_ovfl item) \<noteq> h_u opage
      then (WT_ERROR, errx (Ovfl_size_mismatch item_num (p_addr page)) vs)
      else (OK, vs))"

subsection \<open>The walk: \<open>__wt_bt_verify_tree\<close>, \<open>__wt_bt_verify_page\<close>, \<open>__wt_bt_verify_page_item\<close>\<close>

text \<open>
  The three functions call each other, and nothing in the source bounds the depth:
  a file whose pages refer to each other in a cycle is walked until a page is
  registered twice. The first argument is fuel: it bounds the nesting of the calls
  of \<open>__wt_bt_verify_tree\<close> and \<open>__wt_bt_verify_page\<close> (the loops use none), and
  \<open>None\<close> is a walk that ran out of it. \<open>item_loop\<close> is the \<open>WT_ITEM_FOREACH\<close> loop, \<open>col_loop\<close> and \<open>row_loop\<close>
  are the two \<open>WT_INDX_FOREACH\<close> loops of \<open>__wt_bt_verify_tree\<close>.
\<close>

function (sequential) wt_bt_verify_tree ::
      "nat \<Rightarrow> env \<Rightarrow> WT_ROW option \<Rightarrow> 64 word \<Rightarrow> 32 word \<Rightarrow> WT_OFF \<Rightarrow> vstate \<Rightarrow>
       (status \<times> vstate) option"
  and col_loop ::
      "nat \<Rightarrow> env \<Rightarrow> 64 word \<Rightarrow> 32 word \<Rightarrow> WT_OFF list \<Rightarrow> vstate \<Rightarrow> (status \<times> vstate) option"
  and row_loop ::
      "nat \<Rightarrow> env \<Rightarrow> 32 word \<Rightarrow> WT_ROW list \<Rightarrow> vstate \<Rightarrow> (status \<times> vstate) option"
  and wt_bt_verify_page ::
      "nat \<Rightarrow> env \<Rightarrow> WT_PAGE \<Rightarrow> vstate \<Rightarrow> (status \<times> vstate) option"
  and wt_bt_verify_page_item ::
      "nat \<Rightarrow> env \<Rightarrow> WT_PAGE \<Rightarrow> vstate \<Rightarrow> (status \<times> vstate) option"
  and item_loop ::
      "nat \<Rightarrow> env \<Rightarrow> WT_PAGE \<Rightarrow> (bytes \<Rightarrow> bytes \<Rightarrow> int) option \<Rightarrow> WT_ITEM list \<Rightarrow> nat \<Rightarrow> slots \<Rightarrow>
       vstate \<Rightarrow> (status \<times> slots \<times> vstate) option"
where
  "wt_bt_verify_tree 0 db parent_rip start_recno level off vs = None"
| "wt_bt_verify_tree (Suc n) db parent_rip start_recno level off vs =
     (case page_in db (o_addr off) (o_size off) of
        None \<Rightarrow> Some (Collab_error, vs)
      | Some page \<Rightarrow>
          (case wt_bt_verify_page n db page (pin vs) of
             None \<Rightarrow> None
           | Some (ret, vs) \<Rightarrow>
               if ret \<noteq> OK then Some (tree_err ret vs)
               else
                 (case (if p_indx page then Some page else page_inmem db page) of
                    None \<Rightarrow> Some (tree_err Collab_error vs)
                  | Some page \<Rightarrow>
                      (case tree_checks db parent_rip start_recno level off page vs of
                         (jump, vs) \<Rightarrow>
                           (case jump of
                              Some ret \<Rightarrow> Some (tree_err ret vs)
                            | None \<Rightarrow>
                             (let level = (if level = WT_NOLEVEL db then h_level page else level)
                              in case page_kind (h_type page) of
                                   Col_leaf \<Rightarrow> Some (OK, page_out vs)
                                 | Row_leaf \<Rightarrow> Some (OK, vs\<lparr>leaf := Some page\<rparr>)
                                 | Col_int \<Rightarrow>
                                     (case col_loop n db (h_start_recno page) (level - 1)
                                             (p_icol page) vs of
                                        None \<Rightarrow> None
                                      | Some (ret, vs) \<Rightarrow> Some (tree_err ret vs))
                                 | Row_int \<Rightarrow>
                                     (case row_loop n db (level - 1) (p_irow page) vs of
                                        None \<Rightarrow> None
                                      | Some (ret, vs) \<Rightarrow> Some (tree_err ret vs))
                                 | No_kind \<Rightarrow> Some (tree_err WT_ERROR (errx Database_format vs))))))))"
| "col_loop n db start_recno level [] vs = Some (OK, vs)"
| "col_loop n db start_recno level (cip # cips) vs =
     (case wt_bt_verify_tree n db None start_recno level cip vs of
        None \<Rightarrow> None
      | Some (ret, vs) \<Rightarrow>
          if ret \<noteq> OK then Some (ret, vs)
          else col_loop n db (start_recno + o_records cip) level cips vs)"
| "row_loop n db level [] vs = Some (OK, vs)"
| "row_loop n db level (rip # rips) vs =
     (case leaf_cmp db rip vs of
        (ret, vs) \<Rightarrow>
          if ret \<noteq> OK then Some (ret, vs)
          else
            (case wt_bt_verify_tree n db (Some rip) 0 level (r_off rip) vs of
               None \<Rightarrow> None
             | Some (ret, vs) \<Rightarrow>
                 if ret \<noteq> OK then Some (ret, vs) else row_loop n db level rips vs))"
| "wt_bt_verify_page 0 db page vs = None"
| "wt_bt_verify_page (Suc n) db page vs =
     (case verify_page_hdr db page vs of
        (ret, vs) \<Rightarrow>
          if ret \<noteq> OK then Some (ret, vs)
          else if item_page (h_type page) then wt_bt_verify_page_item n db page vs
          else Some (verify_page_other db page vs))"
| "wt_bt_verify_page_item n db page vs =
     (case item_scr_alloc db vs of
        None \<Rightarrow> Some (Collab_error, vs)
      | Some vs \<Rightarrow>
          (case item_func db (h_type page) of
             None \<Rightarrow> Some (wt_database_format vs)
           | Some func \<Rightarrow>
               (case item_loop n db page func (p_items page) 0
                       \<lparr>current = slot0, last_data = slot0, last_key = slot0\<rparr> vs of
                  None \<Rightarrow> None
                | Some (ret, sl, vs) \<Rightarrow> Some (ret, item_err db sl vs))))"
| "item_loop n db page func [] item_num sl vs = Some (OK, sl, vs)"
| "item_loop n db page func (item # items) item_num sl vs =
     (case item_checks db page item (item_num + 1) of
        Some d \<Rightarrow> Some (WT_ERROR, sl, errx d vs)
      | None \<Rightarrow>
          (case (if is_ovfl_item (it_type item) then
                   (case ovfl_discard sl vs of
                      (sl, vs) \<Rightarrow>
                        (case ovfl_in db (it_ovfl item) of
                           None \<Rightarrow> Some (Collab_error, sl, vs)
                         | Some opage \<Rightarrow>
                             (case wt_bt_verify_page n db opage (pin vs) of
                                None \<Rightarrow> None
                              | Some (ret, vs) \<Rightarrow>
                                  if ret \<noteq> OK
                                  then Some (ret, sl\<lparr>current := (current sl)\<lparr>sl_ovfl := Some opage\<rparr>\<rparr>, vs)
                                  else (case ovfl_size_check page item (item_num + 1) opage vs of
                                          (ret, vs) \<Rightarrow>
                                            Some (ret, sl\<lparr>current := (current sl)\<lparr>sl_ovfl := Some opage\<rparr>\<rparr>, vs)))))
                 else Some (OK, sl, vs)) of
             None \<Rightarrow> None
           | Some (ret, sl, vs) \<Rightarrow>
               if ret \<noteq> OK then Some (ret, sl, vs)
               else
                 (case sort_step db func (p_addr page) item (item_num + 1) sl of
                    (ret, ds, sl) \<Rightarrow>
                      if ret \<noteq> OK then Some (ret, sl, vs\<lparr>errs := errs vs @ ds\<rparr>)
                      else
                        (case (if h_type page = WT_PAGE_ROW_LEAF \<and> it_type item = WT_ITEM_OFF
                               then wt_bt_verify_tree n db None 0 (WT_NOLEVEL db) (it_off item) vs
                               else Some (OK, vs)) of
                           None \<Rightarrow> None
                         | Some (ret, vs) \<Rightarrow>
                             if ret \<noteq> OK then Some (ret, sl, vs)
                             else item_loop n db page func items (item_num + 1) sl vs))))"
  by pat_completeness auto

termination
  by (relation "measures
        [case_sum (case_sum fst (case_sum fst fst)) (case_sum fst (case_sum fst fst)),
         case_sum (case_sum (\<lambda>_. 0) (case_sum (\<lambda>_. 1) (\<lambda>_. 1)))
                  (case_sum (\<lambda>_. 0) (case_sum (\<lambda>_. 2) (\<lambda>_. 1))),
         case_sum (case_sum (\<lambda>_. 0)
                     (case_sum (\<lambda>(n, db, s, l, cips, vs). length cips)
                               (\<lambda>(n, db, l, rips, vs). length rips)))
                  (case_sum (\<lambda>_. 0)
                     (case_sum (\<lambda>_. 0)
                               (\<lambda>(n, db, page, func, items, r). length items)))]")
     simp_all


declare wt_bt_verify_tree.simps [simp del]
declare col_loop.simps [simp del]
declare row_loop.simps [simp del]
declare wt_bt_verify_page.simps [simp del]
declare wt_bt_verify_page_item.simps [simp del]
declare item_loop.simps [simp del]

subsection \<open>\<open>__wt_bt_verify\<close>\<close>

text \<open>
  \<open>memset(&vstuff, 0, ...)\<close>, with the progress callback \<open>f\<close> set or not.
\<close>

definition vstuff0 :: "bool \<Rightarrow> vstate" where
  "vstuff0 f =
     \<lparr>frags = 0, fragbits = None, f_set = f, fcnt = 0, leaf = None,
      errs = [], progress = [], pins = 0, scr = 0\<rparr>"

text \<open>
  The label \<open>err\<close>: the descriptor page (if read) and the saved leaf are released,
  the progress callback is called a last time, the bit string is freed, and \<open>ret\<close>
  is returned.
\<close>

definition verify_err :: "bool \<Rightarrow> status \<Rightarrow> vstate \<Rightarrow> status \<times> vstate" where
  "verify_err page_set ret vs =
     (let vs = (if page_set then page_out vs else vs);
          vs = release_leaf vs;
          vs = (if f_set vs then vs\<lparr>progress := progress vs @ [fcnt vs]\<rparr> else vs)
      in (ret, vs\<lparr>fragbits := None\<rparr>))"

text \<open>
  \<open>vstuff.frags\<close> is a \<open>uint32_t\<close>: the quotient is cut to 32 bits. \<open>ret\<close> is 0
  when the function starts, and the branch for a file that is too large leaves
  through \<open>goto err\<close> without setting it.
\<close>

definition wt_bt_verify :: "nat \<Rightarrow> env \<Rightarrow> bool \<Rightarrow> (status \<times> vstate) option" where
  "wt_bt_verify n db f =
     (let vs = (vstuff0 f)\<lparr>frags := WT_OFF_TO_ADDR db (file_size db) mod 2 ^ 32\<rparr>
      in if frags vs > INT_MAX db then Some (verify_err False OK (errx File_too_large vs))
         else if \<not> bit_alloc_ok db then Some (verify_err False Collab_error vs)
         else
           (let vs = vs\<lparr>fragbits := Some {}\<rparr>
            in case page_in db 0 512 of
                 None \<Rightarrow> Some (verify_err False Collab_error vs)
               | Some page \<Rightarrow>
                   (case wt_bt_verify_page n db page (pin vs) of
                      None \<Rightarrow> None
                    | Some (ret, vs) \<Rightarrow>
                        if ret \<noteq> OK then Some (verify_err True ret vs)
                        else
                          (case wt_bt_verify_tree n db None 0 (WT_NOLEVEL db)
                                  \<lparr>o_addr = root_addr db, o_size = root_size db, o_records = 0\<rparr> vs of
                             None \<Rightarrow> None
                           | Some (ret, vs) \<Rightarrow>
                               if ret \<noteq> OK then Some (verify_err True ret vs)
                               else (case wt_bt_verify_checkfrag db vs of
                                       (ret, vs) \<Rightarrow> Some (verify_err True ret vs))))))"

section \<open>Notions and data for the properties\<close>

text \<open>
  The definitions below are not functions of the source. They name what the
  properties speak of (the fragments of a page, a maximal run of clear bits, the keys
  of a page in page order, ...) and give the concrete inputs at which the properties
  are applied.
\<close>

subsection \<open>Example data\<close>

text \<open>
  A configuration and a blank page, for the concrete inputs at which the theorems
  below are applied. The comparison function is the byte-wise one; the constants of
  the missing header are given values that fit what the source says of them.
\<close>

fun memcmp :: "bytes \<Rightarrow> bytes \<Rightarrow> int" where
  "memcmp [] [] = 0"
| "memcmp [] (y # ys) = -1"
| "memcmp (x # xs) [] = 1"
| "memcmp (x # xs) (y # ys) = (if x < y then -1 else if y < x then 1 else memcmp xs ys)"

definition db0 :: env where
  "db0 =
     \<lparr>allocsize = 512, file_size = 1536, root_addr = 1, root_size = 512, fixed_len = 2,
      intlmin = 512, intlmax = 512, leafmin = 512, leafmax = 512,
      btree_compare = memcmp, btree_compare_dup = memcmp,
      huffman_key = None, huffman_data = None,
      INT_MAX = 2147483647, WT_NOLEVEL = 0, WT_LLEAF = 1,
      WT_FIX_DELETE_BYTE = 128, WT_FIX_DELETE_ISSET = (\<lambda>b. and b 128 \<noteq> 0),
      sizeof_WT_ITEM = 4, sizeof_WT_OVFL = 8, sizeof_WT_OFF = 16, sizeof_WT_PAGE_HDR = 32,
      WT_HDR_BYTES_TO_ALLOC = (\<lambda>n. ((n + 32 + 511) div 512) * 512),
      WT_BTREE_MAGIC = 120897, WT_BTREE_MAJOR_VERSION = 0, WT_BTREE_MINOR_VERSION = 1,
      WT_PAGE_DESC_MASK = 1, WT_PAGE_DESC_REPEAT = 1,
      bit_alloc_ok = True, scr_pool = 8,
      page_in = (\<lambda>addr size. None), page_inmem = (\<lambda>page. Some page),
      ovfl_in = (\<lambda>ovfl. None), item_process = (\<lambda>item. None)\<rparr>"

definition desc0 :: WT_PAGE_DESC where
  "desc0 =
     \<lparr>d_magic = 120897, d_majorv = 0, d_minorv = 1, d_intlmin = 512, d_intlmax = 512,
      d_leafmin = 512, d_leafmax = 512, d_recno_offset = 0, d_fixed_len = 0, d_flags = 0,
      d_unused1 = [0], d_unused2 = [0]\<rparr>"

definition page0 :: WT_PAGE where
  "page0 =
     \<lparr>p_addr = 0, p_size = 512, p_records = 0, h_type = WT_PAGE_DESCRIPT, h_level = 0,
      h_start_recno = 0, h_lsn0 = 0, h_lsn1 = 0, h_unused0 = 0, h_unused1 = 0, h_u = 0,
      p_byte = [], p_items = [], p_offs = [], p_desc = desc0, p_indx = True,
      p_irow = [], p_icol = []\<rparr>"

subsection \<open>The fragment map\<close>

text \<open>
  The fragments a page covers: \<open>size / allocsize\<close> of them, from its address on.
\<close>

definition page_frags :: "env \<Rightarrow> WT_PAGE \<Rightarrow> int set" where
  "page_frags db page =
     {int (p_addr page) ..< int (p_addr page) + int (WT_OFF_TO_ADDR db (p_size page))}"

text \<open>
  The registrations a walk makes: \<open>__wt_bt_verify_page\<close> registers each page it is
  called with, and the first failure ends the walk.
\<close>

fun addfrag_all :: "env \<Rightarrow> WT_PAGE list \<Rightarrow> vstate \<Rightarrow> status \<times> vstate" where
  "addfrag_all db [] vs = (OK, vs)"
| "addfrag_all db (page # pages) vs =
     (case wt_bt_verify_addfrag db page vs of
        (ret, vs') \<Rightarrow> if ret \<noteq> OK then (ret, vs') else addfrag_all db pages vs')"

text \<open>The fragments of the file whose bit is clear.\<close>

definition unverified :: "vstate \<Rightarrow> int set" where
  "unverified vs = {i. 0 \<le> i \<and> i < int (frags vs) \<and> i \<notin> the (fragbits vs)}"

text \<open>
  The runs the scan of \<^const>\<open>wt_bt_verify_checkfrag\<close> is meant to report: \<open>clears\<close>
  lists the clear bits in rising order, \<open>group_runs\<close> joins neighbours, and
  \<open>max_run S a b\<close> says that \<open>a..b\<close> is a run of \<open>S\<close> that cannot be extended
  on either side. \<open>never_verified\<close> is the message for a run.
\<close>

definition clears :: "bitstr \<Rightarrow> int \<Rightarrow> int list" where
  "clears bits n = filter (\<lambda>i. i \<notin> bits) (map int [0..<nat n])"

fun group_runs :: "int \<Rightarrow> int \<Rightarrow> int list \<Rightarrow> (int \<times> int) list" where
  "group_runs s e [] = [(s, e)]"
| "group_runs s e (c # cs) =
     (if c = e + 1 then group_runs s c cs else (s, e) # group_runs c c cs)"

definition never_verified :: "int \<times> int \<Rightarrow> diag" where
  "never_verified r = (if fst r = snd r then Fragment_never_verified (fst r)
                       else Fragments_never_verified (fst r) (snd r))"

definition max_run :: "int set \<Rightarrow> int \<Rightarrow> int \<Rightarrow> bool" where
  "max_run S a b \<longleftrightarrow> a \<le> b \<and> {a..b} \<subseteq> S \<and> a - 1 \<notin> S \<and> b + 1 \<notin> S"

definition frag_pages :: "WT_PAGE list" where
  "frag_pages = [page0, page0\<lparr>p_addr := 1, p_size := 1024\<rparr>]"

definition frag_start :: vstate where
  "frag_start = (vstuff0 False)\<lparr>frags := 3, fragbits := Some {}\<rparr>"

definition frag_walked :: vstate where
  "frag_walked = (vstuff0 False)\<lparr>frags := 3, fragbits := Some {0, 1, 2}\<rparr>"

subsection \<open>\<open>WT_PAGE_COL_RCC\<close> pages\<close>

text \<open>
  Entry \<open>k\<close> (from 0) of a page: the bytes from its start to the end of the page,
  whether it extends past the end of the page, and whether its payload is that of
  the entry before it while that entry's count is below \<open>UINT16_MAX\<close>.
  \<open>rcc_diag\<close> is the diagnostic the walk has for an entry, if any, in the order of
  the source's tests.
\<close>

definition rcc_entry :: "env \<Rightarrow> WT_PAGE \<Rightarrow> nat \<Rightarrow> bytes" where
  "rcc_entry db page k = drop (k * (fixed_len db + 2)) (p_byte page)"

definition rcc_past_end :: "env \<Rightarrow> WT_PAGE \<Rightarrow> nat \<Rightarrow> bool" where
  "rcc_past_end db page k \<longleftrightarrow> length (p_byte page) < (k + 1) * (fixed_len db + 2)"

definition rcc_same :: "env \<Rightarrow> WT_PAGE \<Rightarrow> nat \<Rightarrow> bool" where
  "rcc_same db page k \<longleftrightarrow>
     0 < k \<and>
     take (fixed_len db) (WT_RCC_REPEAT_DATA (rcc_entry db page (k - 1))) =
     take (fixed_len db) (WT_RCC_REPEAT_DATA (rcc_entry db page k)) \<and>
     WT_RCC_REPEAT_COUNT (rcc_entry db page (k - 1)) < UINT16_MAX"

definition rcc_diag :: "env \<Rightarrow> WT_PAGE \<Rightarrow> nat \<Rightarrow> diag option" where
  "rcc_diag db page k =
     (if rcc_past_end db page k then Some (Past_end_of_page (k + 1) (p_addr page))
      else if WT_RCC_REPEAT_COUNT (rcc_entry db page k) = 0
        then Some (Repeat_count_zero (k + 1) (p_addr page))
      else if delfmt_bad db (WT_RCC_REPEAT_DATA (rcc_entry db page k))
        then Some (Deleted_non_nul (k + 1) (p_addr page))
      else if rcc_same db page k
        then Some (Should_have_been_compressed (k + 1) k (p_addr page))
      else None)"

definition rcc_page :: WT_PAGE where
  "rcc_page = page0\<lparr>p_addr := 2, h_type := WT_PAGE_COL_RCC, h_level := 1, h_start_recno := 1,
                     h_u := 2, p_byte := [255, 255, 7, 7, 1, 0, 7, 7]\<rparr>"

definition rcc_page_same :: WT_PAGE where
  "rcc_page_same = rcc_page\<lparr>p_byte := [3, 0, 7, 7, 4, 0, 7, 7]\<rparr>"

subsection \<open>The key comparator\<close>

text \<open>
  The entry of the child page the comparator takes, and the two keys it compares
  when it gets them: a key that needs processing costs a scratch buffer and a
  successful \<open>__wt_bt_item_process\<close>. \<open>parent_key\<close> is the parent's side alone.
\<close>

definition cmp_child_rip :: "WT_PAGE \<Rightarrow> bool \<Rightarrow> WT_ROW" where
  "cmp_child_rip child first_entry =
     (if first_entry then p_irow child ! 0 else p_irow child ! (length (p_irow child) - 1))"

definition cmp_keys :: "env \<Rightarrow> WT_ROW \<Rightarrow> WT_PAGE \<Rightarrow> bool \<Rightarrow> vstate \<Rightarrow> (bytes \<times> bytes) option" where
  "cmp_keys db parent_rip child first_entry vs =
     (case r_key (cmp_child_rip child first_entry) of
        Key_bytes cd \<Rightarrow>
          (case r_key parent_rip of
             Key_bytes pd \<Rightarrow> Some (cd, pd)
           | Key_item pitem \<Rightarrow>
               if scr vs < scr_pool db
               then map_option (\<lambda>r. (cd, processed_key r)) (item_process db pitem)
               else None)
      | Key_item citem \<Rightarrow>
          if scr vs < scr_pool db then
            (case item_process db citem of
               None \<Rightarrow> None
             | Some c \<Rightarrow>
                 (case r_key parent_rip of
                    Key_bytes pd \<Rightarrow> Some (processed_key c, pd)
                  | Key_item pitem \<Rightarrow>
                      if scr vs + 1 < scr_pool db
                      then map_option (\<lambda>r. (processed_key c, processed_key r))
                             (item_process db pitem)
                      else None))
          else None)"

definition parent_key :: "env \<Rightarrow> WT_ROW \<Rightarrow> vstate \<Rightarrow> bytes option" where
  "parent_key db parent_rip vs =
     (case r_key parent_rip of
        Key_bytes pd \<Rightarrow> Some pd
      | Key_item pitem \<Rightarrow>
          if scr vs < scr_pool db then map_option processed_key (item_process db pitem)
          else None)"

text \<open>
  The collation of a row or duplicate page: the duplicate comparison function for
  the two duplicate page types, the primary one for the two row page types.
\<close>

definition collation :: "env \<Rightarrow> page_type \<Rightarrow> bytes \<Rightarrow> bytes \<Rightarrow> int" where
  "collation db t =
     (if t = WT_PAGE_DUP_INT \<or> t = WT_PAGE_DUP_LEAF then btree_compare_dup db
      else btree_compare db)"

definition row_or_dup :: "page_type \<Rightarrow> bool" where
  "row_or_dup t \<longleftrightarrow>
     t = WT_PAGE_DUP_INT \<or> t = WT_PAGE_DUP_LEAF \<or> t = WT_PAGE_ROW_INT \<or> t = WT_PAGE_ROW_LEAF"

definition off0 :: WT_OFF where
  "off0 = \<lparr>o_addr = 0, o_size = 512, o_records = 0\<rparr>"

definition item0 :: WT_ITEM where
  "item0 = \<lparr>it_type = WT_ITEM_KEY, it_len = 0, it_byte = [],
             it_ovfl = \<lparr>v_addr = 0, v_size = 0\<rparr>, it_off = off0, it_pos = 32, it_next = 36\<rparr>"

definition row_child :: WT_PAGE where
  "row_child = page0\<lparr>p_addr := 2, h_type := WT_PAGE_ROW_LEAF, h_level := 1,
                      p_irow := [\<lparr>r_key = Key_bytes [2], r_off = off0\<rparr>,
                                 \<lparr>r_key = Key_bytes [5], r_off = off0\<rparr>]\<rparr>"

definition row_parent :: WT_ROW where
  "row_parent = \<lparr>r_key = Key_bytes [3], r_off = off0\<lparr>o_addr := 2\<rparr>\<rparr>"

subsection \<open>Release of pages and scratch buffers\<close>

text \<open>
  A comparison in which the child's key is an overflow key whose processing
  succeeds and the parent's key is an item whose processing fails.
\<close>

definition leak_db :: env where
  "leak_db = db0\<lparr>item_process :=
       (\<lambda>item. if it_type item = WT_ITEM_KEY_OVFL
                then Some ([], Some (page0\<lparr>p_addr := 1, h_type := WT_PAGE_OVFL, h_level := 1,
                                            h_u := 1, p_byte := [2]\<rparr>))
                else None)\<rparr>"

definition leak_child :: WT_PAGE where
  "leak_child = row_child\<lparr>p_irow := [\<lparr>r_key = Key_item (item0\<lparr>it_type := WT_ITEM_KEY_OVFL\<rparr>),
                                       r_off = off0\<rparr>]\<rparr>"

definition leak_parent :: WT_ROW where
  "leak_parent = \<lparr>r_key = Key_item item0, r_off = off0\<lparr>o_addr := 2\<rparr>\<rparr>"

subsection \<open>Files too large to verify\<close>

text \<open>A file of \<open>2^31\<close> fragments of 512 bytes.\<close>

definition big_db :: env where
  "big_db = db0\<lparr>file_size := 1099511627776\<rparr>"

subsection \<open>The checks of the walk\<close>

text \<open>
  The level a page type is allowed, as \<open>__wt_bt_verify_page\<close> checks it.
\<close>

definition level_rule :: "env \<Rightarrow> WT_PAGE \<Rightarrow> bool" where
  "level_rule db page \<longleftrightarrow>
     (h_type page = WT_PAGE_DESCRIPT \<longrightarrow> h_level page = WT_NOLEVEL db) \<and>
     (h_type page \<in> {WT_PAGE_COL_FIX, WT_PAGE_COL_RCC, WT_PAGE_COL_VAR, WT_PAGE_DUP_LEAF,
                      WT_PAGE_OVFL, WT_PAGE_ROW_LEAF} \<longrightarrow> h_level page = WT_LLEAF db) \<and>
     (h_type page \<in> {WT_PAGE_COL_INT, WT_PAGE_DUP_INT, WT_PAGE_ROW_INT} \<longrightarrow>
        WT_LLEAF db < h_level page)"

text \<open>
  A column file of four fragments for the concrete inputs: the descriptor page at
  address 0, an internal root at address 1 (level 2, first record 1) over two
  fixed-length leaves of 3 and 2 records at addresses 2 and 3. \<open>tree_db\<close> is the
  configuration of a file of a given size that reads the descriptor page, a root and
  two leaves at these addresses.
\<close>

definition col_off_a :: WT_OFF where "col_off_a = \<lparr>o_addr = 2, o_size = 512, o_records = 3\<rparr>"
definition col_off_b :: WT_OFF where "col_off_b = \<lparr>o_addr = 3, o_size = 512, o_records = 2\<rparr>"

definition col_root :: WT_PAGE where
  "col_root = page0\<lparr>p_addr := 1, p_records := 5, h_type := WT_PAGE_COL_INT, h_level := 2,
                    h_start_recno := 1, h_u := 2, p_offs := [col_off_a, col_off_b],
                    p_icol := [col_off_a, col_off_b]\<rparr>"

definition col_leaf_a :: WT_PAGE where
  "col_leaf_a = page0\<lparr>p_addr := 2, p_records := 3, h_type := WT_PAGE_COL_FIX, h_level := 1,
                      h_start_recno := 1, h_u := 3, p_byte := [1, 1, 2, 2, 3, 3]\<rparr>"

definition col_leaf_b :: WT_PAGE where
  "col_leaf_b = page0\<lparr>p_addr := 3, p_records := 2, h_type := WT_PAGE_COL_FIX, h_level := 1,
                      h_start_recno := 4, h_u := 2, p_byte := [4, 4, 5, 5]\<rparr>"

definition tree_db :: "nat \<Rightarrow> WT_PAGE \<Rightarrow> WT_PAGE \<Rightarrow> WT_PAGE \<Rightarrow> env" where
  "tree_db fsize root a b =
     db0\<lparr>file_size := fsize,
         page_in := (\<lambda>addr size.
            if addr = 0 then Some page0
            else if addr = 1 then Some root
            else if addr = 2 then Some a
            else if addr = 3 then Some b
            else None)\<rparr>"

text \<open>
  Three files of four fragments that differ from this one in one field each: the
  root has level 3, so that its leaves, of level 1, are not one level below it; the
  second leaf has 5 as its first record number, where the first leaf ends with
  record 3; the root's reference to the second leaf gives it 9 records, where the
  leaf has 2.
\<close>

definition level_root :: WT_PAGE where
  "level_root = col_root\<lparr>h_level := 3\<rparr>"

definition level_db :: env where
  "level_db = tree_db 2048 level_root col_leaf_a col_leaf_b"

definition recno_leaf :: WT_PAGE where
  "recno_leaf = col_leaf_b\<lparr>h_start_recno := 5\<rparr>"

definition recno_db :: env where
  "recno_db = tree_db 2048 col_root col_leaf_a recno_leaf"

definition count_off :: WT_OFF where
  "count_off = col_off_b\<lparr>o_records := 9\<rparr>"

definition count_root :: WT_PAGE where
  "count_root = col_root\<lparr>p_offs := [col_off_a, count_off], p_icol := [col_off_a, count_off]\<rparr>"

definition count_db :: env where
  "count_db = tree_db 2048 count_root col_leaf_a col_leaf_b"

text \<open>
  A file of \<open>2^32 + 4\<close> fragments of 512 bytes whose first four fragments hold the
  descriptor page, the root and the two leaves, and from which no other page is
  read.
\<close>

definition wrap_db :: env where
  "wrap_db = tree_db 2199023257600 col_root col_leaf_a col_leaf_b"

subsection \<open>The sort order of the items of a page\<close>

text \<open>
  The two classes of sorted items, and the bytes an item is compared by: its bytes on
  the page, or the bytes of the overflow page read for it, decoded when a codec
  applies to its type. \<open>keys_of\<close> and \<open>dups_of\<close> are the two sequences the walk of
  a page compares; \<open>ascending\<close> says that the comparison function is below 0 on
  every two neighbours.
\<close>

definition key_class :: "item_type \<Rightarrow> bool" where
  "key_class t \<longleftrightarrow> t = WT_ITEM_KEY \<or> t = WT_ITEM_KEY_DUP \<or> t = WT_ITEM_KEY_OVFL"

definition data_class :: "item_type \<Rightarrow> bool" where
  "data_class t \<longleftrightarrow> t = WT_ITEM_DATA_DUP \<or> t = WT_ITEM_DATA_DUP_OVFL"

definition item_raw :: "env \<Rightarrow> WT_ITEM \<Rightarrow> bytes" where
  "item_raw db item =
     (if is_ovfl_item (it_type item)
      then take (v_size (it_ovfl item)) (p_byte (the (ovfl_in db (it_ovfl item))))
      else take (it_len item) (it_byte item))"

definition item_sort_bytes :: "env \<Rightarrow> WT_ITEM \<Rightarrow> bytes" where
  "item_sort_bytes db item =
     (case item_codec db (it_type item) of
        None \<Rightarrow> item_raw db item
      | Some decode \<Rightarrow> the (decode (item_raw db item)))"

definition ascending :: "(bytes \<Rightarrow> bytes \<Rightarrow> int) \<Rightarrow> bytes list \<Rightarrow> bool" where
  "ascending func xs = successively (\<lambda>a b. func a b < 0) xs"

definition keys_of :: "env \<Rightarrow> WT_ITEM list \<Rightarrow> bytes list" where
  "keys_of db items = map (item_sort_bytes db) (filter (\<lambda>i. key_class (it_type i)) items)"

definition dups_of :: "env \<Rightarrow> WT_ITEM list \<Rightarrow> bytes list" where
  "dups_of db items = map (item_sort_bytes db) (filter (\<lambda>i. data_class (it_type i)) items)"

text \<open>
  What the walk has established after the items \<open>pre\<close>: \<open>last_key\<close> and
  \<open>last_data\<close> hold the last item of their class, if there was one, and both
  sequences are ascending so far.
\<close>

definition last_opt :: "'a list \<Rightarrow> 'a option" where
  "last_opt xs = (if xs = [] then None else Some (last xs))"

definition sort_inv :: "env \<Rightarrow> (bytes \<Rightarrow> bytes \<Rightarrow> int) \<Rightarrow> WT_ITEM list \<Rightarrow> slots \<Rightarrow> bool" where
  "sort_inv db func pre sl \<longleftrightarrow>
     sl_item (last_key sl) = last_opt (keys_of db pre) \<and>
     sl_item (last_data sl) = last_opt (dups_of db pre) \<and>
     ascending func (keys_of db pre) \<and> ascending func (dups_of db pre)"

definition mk_item :: "item_type \<Rightarrow> bytes \<Rightarrow> nat \<Rightarrow> WT_ITEM" where
  "mk_item t bs pos =
     \<lparr>it_type = t, it_len = length bs, it_byte = bs, it_ovfl = \<lparr>v_addr = 0, v_size = 0\<rparr>,
      it_off = off0, it_pos = pos, it_next = pos + 8\<rparr>"

definition sorted_page :: WT_PAGE where
  "sorted_page = row_child\<lparr>p_items :=
     [mk_item WT_ITEM_KEY [97] 32, mk_item WT_ITEM_DATA [49] 40,
      mk_item WT_ITEM_KEY [98] 48, mk_item WT_ITEM_DATA [50] 56]\<rparr>"

section \<open>Properties\<close>

subsection \<open>The fragment map\<close>

lemma find_filter_hd:
  "find P xs = (case filter P xs of [] \<Rightarrow> None | x # _ \<Rightarrow> Some x)"
  by (induction xs) auto

lemma bit_ffc_clears:
  "bit_ffc bits n = (case clears bits n of [] \<Rightarrow> -1 | c # _ \<Rightarrow> c)"
  by (simp add: bit_ffc_def clears_def bit_test_def find_filter_hd split: list.splits)

lemma clears_sorted: "sorted_wrt (<) (clears bits n)"
  unfolding clears_def
  by (rule sorted_wrt_filter) (simp add: sorted_wrt_map sorted_wrt_upt[unfolded] strict_sorted_iff)

lemma clears_set: "set (clears bits n) = {i. 0 \<le> i \<and> i < n \<and> i \<notin> bits}"
proof -
  have "int ` {0..<nat n} = {i. 0 \<le> i \<and> i < n}"
    by (auto simp: image_int_atLeastLessThan)
  then show ?thesis by (auto simp: clears_def)
qed

lemma clears_bit_set:
  assumes "clears bits n = c # cs"
  shows "clears (bit_set bits c) n = cs"
proof -
  have d: "c \<notin> set cs" "sorted_wrt (<) cs"
    using clears_sorted[of bits n] assms by auto
  have "clears (bit_set bits c) n = filter (\<lambda>i. i \<noteq> c) (clears bits n)"
    by (auto simp: clears_def bit_set_def intro: filter_cong)
  also have "\<dots> = filter (\<lambda>i. i \<noteq> c) cs" using assms by simp
  also have "\<dots> = cs" using d by (auto simp: filter_id_conv)
  finally show ?thesis .
qed

lemma clears_nonneg: "c \<in> set (clears bits n) \<Longrightarrow> 0 \<le> c"
  by (simp add: clears_set)

lemma checkfrag_loop_runs:
  "clears bits n = cs \<Longrightarrow> s \<noteq> -1 \<Longrightarrow>
   checkfrag_loop n bits s e ret out =
     (WT_ERROR, bits \<union> set cs, out @ map never_verified (group_runs s e cs))"
proof (induction cs arbitrary: bits s e ret out)
  case Nil
  then have "bit_ffc bits n = -1" by (simp add: bit_ffc_clears)
  then show ?case using Nil by (subst checkfrag_loop.simps) (simp add: never_verified_def)
next
  case (Cons c cs)
  have f: "bit_ffc bits n = c" using Cons.prems by (simp add: bit_ffc_clears)
  have c0: "c \<noteq> -1" using clears_nonneg[of c bits n] Cons.prems by auto
  have next_cs: "clears (bit_set bits c) n = cs" using Cons.prems by (simp add: clears_bit_set)
  show ?case
  proof (cases "e = c - 1")
    case True
    have "checkfrag_loop n bits s e ret out = checkfrag_loop n (bit_set bits c) s c ret out"
      using f c0 True Cons.prems(2) by (subst checkfrag_loop.simps) simp
    also have "\<dots> = (WT_ERROR, bit_set bits c \<union> set cs, out @ map never_verified (group_runs s c cs))"
      using Cons.IH[OF next_cs Cons.prems(2)] .
    finally show ?thesis using True by (simp add: bit_set_def)
  next
    case False
    have "checkfrag_loop n bits s e ret out =
          checkfrag_loop n (bit_set bits c) c c WT_ERROR (out @ [never_verified (s, e)])"
      using f c0 False Cons.prems(2) by (subst checkfrag_loop.simps) (simp add: never_verified_def)
    also have "\<dots> = (WT_ERROR, bit_set bits c \<union> set cs,
                   (out @ [never_verified (s, e)]) @ map never_verified (group_runs c c cs))"
      using Cons.IH[OF next_cs c0] .
    finally show ?thesis using False by (simp add: bit_set_def)
  qed
qed

lemma checkfrag_loop_start:
  "checkfrag_loop n bits (-1) (-1) OK [] =
     (case clears bits n of
        [] \<Rightarrow> (OK, bits, [])
      | c # cs \<Rightarrow> (WT_ERROR, bits \<union> set (c # cs), map never_verified (group_runs c c cs)))"
proof (cases "clears bits n")
  case Nil
  then have "bit_ffc bits n = -1" by (simp add: bit_ffc_clears)
  then show ?thesis using Nil by (subst checkfrag_loop.simps) simp
next
  case (Cons c cs)
  have f: "bit_ffc bits n = c" using Cons by (simp add: bit_ffc_clears)
  have c0: "c \<noteq> -1" using clears_nonneg[of c bits n] Cons by auto
  have "checkfrag_loop n bits (-1) (-1) OK [] = checkfrag_loop n (bit_set bits c) c c OK []"
    using f c0 by (subst checkfrag_loop.simps) simp
  then show ?thesis
    using checkfrag_loop_runs[OF clears_bit_set[OF Cons] c0, of c OK "[]"] Cons
    by (simp add: bit_set_def)
qed

lemma group_runs_max_run:
  "sorted_wrt (<) cs \<Longrightarrow> \<forall>c\<in>set cs. e < c \<Longrightarrow> s \<le> e \<Longrightarrow>
   (a, b) \<in> set (group_runs s e cs) \<longleftrightarrow> max_run ({s..e} \<union> set cs) a b"
proof (induction cs arbitrary: s e)
  case Nil
  show ?case using Nil.prems unfolding max_run_def
    by force
next
  case (Cons c cs)
  have lt: "e < c" and srt: "sorted_wrt (<) cs" and gt: "\<forall>x\<in>set cs. c < x"
    using Cons.prems by auto
  show ?case
  proof (cases "c = e + 1")
    case True
    have "{s..e} \<union> set (c # cs) = {s..c} \<union> set cs" using True Cons.prems(3) by auto
    then show ?thesis using Cons.IH[OF srt gt, of s] True Cons.prems(3) by simp
  next
    case False
    have ih: "(a, b) \<in> set (group_runs c c cs) \<longleftrightarrow> max_run ({c..c} \<union> set cs) a b"
      using Cons.IH[OF srt gt, of c] by simp
    have far: "\<forall>x\<in>insert c (set cs). e + 1 < x" using lt False gt by auto
    have "max_run ({s..e} \<union> set (c # cs)) a b \<longleftrightarrow>
          (a = s \<and> b = e) \<or> max_run ({c..c} \<union> set cs) a b" (is "?L \<longleftrightarrow> ?R")
    proof
      assume L: ?L
      then have ab: "a \<le> b" and sub: "{a..b} \<subseteq> {s..e} \<union> insert c (set cs)"
        and lo: "a - 1 \<notin> {s..e} \<union> insert c (set cs)"
        and hi: "b + 1 \<notin> {s..e} \<union> insert c (set cs)"
        by (auto simp: max_run_def)
      show ?R
      proof (cases "a \<le> e")
        case True
        have "a \<in> {s..e} \<union> insert c (set cs)" using sub ab by auto
        then have sa: "s \<le> a" using True far by auto
        have as: "a = s" using lo sa True by auto
        have "b \<le> e"
        proof (rule ccontr)
          assume "\<not> b \<le> e"
          then have "e + 1 \<in> {a..b}" using True by auto
          then have "e + 1 \<in> {s..e} \<union> insert c (set cs)" using sub by blast
          then show False using far by auto
        qed
        then have "b = e" using hi as ab by auto
        then show ?thesis using as by simp
      next
        case False
        then have "{a..b} \<subseteq> insert c (set cs)" using sub by auto
        then show ?thesis using ab lo hi by (auto simp: max_run_def)
      qed
    next
      assume R: ?R
      then show ?L
      proof
        assume "a = s \<and> b = e"
        then show ?L using Cons.prems(3) far by (auto simp: max_run_def)
      next
        assume m: "max_run ({c..c} \<union> set cs) a b"
        then have "a \<in> insert c (set cs)" by (auto simp: max_run_def)
        then have "e + 1 < a" using far by blast
        then show ?L using m by (auto simp: max_run_def)
      qed
    qed
    then show ?thesis using False ih by auto
  qed
qed


lemma addfrag_char:
  assumes "fragbits vs = Some bits"
  shows "wt_bt_verify_addfrag db page vs =
     (if page_frags db page \<inter> bits \<noteq> {}
      then (WT_ERROR, errx (Already_verified (p_addr page)) vs)
      else (OK, vs\<lparr>fragbits := Some (bits \<union> page_frags db page)\<rparr>))"
proof -
  let ?n = "WT_OFF_TO_ADDR db (p_size page)"
  have t: "list_ex (\<lambda>i. bit_test bits (int (p_addr page) + int i)) [0..<?n]
           \<longleftrightarrow> page_frags db page \<inter> bits \<noteq> {}" (is "?L \<longleftrightarrow> ?R")
  proof
    assume ?L
    then obtain i where "i < ?n" "int (p_addr page) + int i \<in> bits"
      by (auto simp: list_ex_iff bit_test_def)
    then have "int (p_addr page) + int i \<in> page_frags db page \<inter> bits"
      by (simp add: page_frags_def)
    then show ?R by blast
  next
    assume ?R
    then obtain x where x: "x \<in> bits" "int (p_addr page) \<le> x" "x < int (p_addr page) + int ?n"
      by (auto simp: page_frags_def)
    then have "nat (x - int (p_addr page)) < ?n"
      and "int (p_addr page) + int (nat (x - int (p_addr page))) = x" by auto
    then show ?L using x(1) by (auto simp: list_ex_iff bit_test_def intro!: bexI[of _ "nat (x - int (p_addr page))"])
  qed
  have s: "bit_nset bits (int (p_addr page)) (int (p_addr page) + (int ?n - 1))
           = bits \<union> page_frags db page"
    by (auto simp: bit_nset_def page_frags_def)
  show ?thesis
    using assms t s by (simp add: wt_bt_verify_addfrag_def Let_def)
qed

lemma checkfrag_char:
  assumes "fragbits vs = Some bits" and "wt_bt_verify_checkfrag db vs = (ret, vs')"
  shows "(ret = OK \<longleftrightarrow> {0..<int (frags vs)} \<subseteq> bits) \<and> (ret = OK \<or> ret = WT_ERROR) \<and>
         (\<exists>out. errs vs' = errs vs @ out \<and>
                set out = never_verified ` {(a, b). max_run (unverified vs) a b})"
proof -
  let ?n = "int (frags vs)"
  have S: "set (clears bits ?n) = unverified vs"
    using assms(1) by (simp add: clears_set unverified_def)
  show ?thesis
  proof (cases "clears bits ?n")
    case Nil
    then have e: "unverified vs = {}" using S by simp
    have "{(a, b). max_run (unverified vs) a b} = {}"
      unfolding e by (auto simp: max_run_def)
    moreover have "{0..<?n} \<subseteq> bits" using e assms(1) by (auto simp: unverified_def)
    ultimately show ?thesis
      using assms Nil by (auto simp: wt_bt_verify_checkfrag_def checkfrag_loop_start)
  next
    case (Cons c cs)
    have srt: "sorted_wrt (<) cs" and gt: "\<forall>x\<in>set cs. c < x"
      using clears_sorted[of bits ?n] Cons by auto
    have "set (group_runs c c cs) = {(a, b). max_run ({c..c} \<union> set cs) a b}"
      using group_runs_max_run[OF srt gt, of c] by auto
    also have "{c..c} \<union> set cs = unverified vs" using S Cons by auto
    finally have runs: "set (group_runs c c cs) = {(a, b). max_run (unverified vs) a b}" .
    have "c \<in> unverified vs" using S Cons by auto
    then have "\<not> {0..<?n} \<subseteq> bits" using assms(1) by (auto simp: unverified_def)
    then show ?thesis
      using assms Cons runs by (auto simp: wt_bt_verify_checkfrag_def checkfrag_loop_start)
  qed
qed

lemma addfrag_all_ok:
  "fragbits vs = Some bits \<Longrightarrow> addfrag_all db pages vs = (OK, vs') \<Longrightarrow>
   fragbits vs' = Some (bits \<union> (\<Union>p\<in>set pages. page_frags db p)) \<and> frags vs' = frags vs \<and>
   (\<forall>p\<in>set pages. page_frags db p \<inter> bits = {}) \<and>
   (\<forall>i<length pages. \<forall>j<length pages. i \<noteq> j \<longrightarrow>
        page_frags db (pages ! i) \<inter> page_frags db (pages ! j) = {})"
proof (induction pages arbitrary: vs bits)
  case Nil
  then show ?case by simp
next
  case (Cons p ps)
  let ?walked = "vs\<lparr>fragbits := Some (bits \<union> page_frags db p)\<rparr>"
  have d: "page_frags db p \<inter> bits = {}" and r: "addfrag_all db ps ?walked = (OK, vs')"
    using Cons.prems by (auto simp: addfrag_char[OF Cons.prems(1)] split: if_splits)
  have ih: "fragbits vs' = Some ((bits \<union> page_frags db p) \<union> (\<Union>q\<in>set ps. page_frags db q))"
    "frags vs' = frags vs"
    "\<forall>q\<in>set ps. page_frags db q \<inter> (bits \<union> page_frags db p) = {}"
    "\<forall>i<length ps. \<forall>j<length ps. i \<noteq> j \<longrightarrow> page_frags db (ps ! i) \<inter> page_frags db (ps ! j) = {}"
    using Cons.IH[OF _ r, of "bits \<union> page_frags db p"] by auto
  have pw: "page_frags db ((p # ps) ! i) \<inter> page_frags db ((p # ps) ! j) = {}"
    if "i < length (p # ps)" "j < length (p # ps)" "i \<noteq> j" for i j
  proof (cases i)
    case 0
    with that obtain j' where "j = Suc j'" "j' < length ps" by (cases j) auto
    then show ?thesis using 0 ih(3) by (auto simp: set_conv_nth)
  next
    case (Suc i')
    show ?thesis
    proof (cases j)
      case 0
      then show ?thesis using Suc that ih(3) by (auto simp: set_conv_nth)
    next
      case (Suc j')
      then show ?thesis using \<open>i = Suc i'\<close> that ih(4) by auto
    qed
  qed
  show ?case using ih d pw by auto
qed

text \<open>
  C9: when the registration of a page fails because one of its fragments is already
  set, the bit string is left as it was: all bits of the page's range are tested
  before any is set. The only change to the state is the diagnostic.
\<close>

theorem addfrag_failure_leaves_bitmap:
  "wt_bt_verify_addfrag db page vs = (ret, vs') \<Longrightarrow> ret \<noteq> OK \<Longrightarrow>
   fragbits vs' = fragbits vs \<and> vs' = errx (Already_verified (p_addr page)) vs"
  by (auto simp: wt_bt_verify_addfrag_def Let_def errx_def split: if_splits)

theorem addfrag_failure_leaves_bitmap_witness:
  "wt_bt_verify_addfrag db0 (page0\<lparr>p_addr := 1, p_size := 1024\<rparr>)
       ((vstuff0 False)\<lparr>fragbits := Some {2}\<rparr>)
     = (WT_ERROR, errx (Already_verified 1) ((vstuff0 False)\<lparr>fragbits := Some {2}\<rparr>))
   \<and> fragbits (errx (Already_verified 1) ((vstuff0 False)\<lparr>fragbits := Some {2}\<rparr>)) = Some {2}"
proof -
  have e: "wt_bt_verify_addfrag db0 (page0\<lparr>p_addr := 1, p_size := 1024\<rparr>)
       ((vstuff0 False)\<lparr>fragbits := Some {2}\<rparr>)
     = (WT_ERROR, errx (Already_verified 1) ((vstuff0 False)\<lparr>fragbits := Some {2}\<rparr>))"
    by (simp add: wt_bt_verify_addfrag_def db0_def page0_def vstuff0_def WT_OFF_TO_ADDR_def
          bit_test_def Let_def upt_rec)
  show ?thesis
    using addfrag_failure_leaves_bitmap[OF e] e by simp
qed

text \<open>
  The two functions of the fragment map. Registering a page fails with the
  \<open>already verified\<close> diagnostic exactly when its range meets a fragment already
  set, and otherwise sets exactly its range; the scan after the walk returns 0
  exactly when every fragment of the file is set, and otherwise returns
  \<open>WT_ERROR\<close> having reported every maximal run of clear fragments and nothing else
  (one fragment as \<open>fragment N\<close>, more as \<open>fragments N to M\<close>); so when every
  registration of a sequence of pages and the scan succeed, the ranges of these
  pages are pairwise disjoint and their union covers the fragments counted in
  \<open>frags\<close>.
\<close>

lemma fragment_map_rules:
  "(fragbits vs = Some bits \<longrightarrow>
      wt_bt_verify_addfrag db page vs =
        (if page_frags db page \<inter> bits \<noteq> {}
         then (WT_ERROR, errx (Already_verified (p_addr page)) vs)
         else (OK, vs\<lparr>fragbits := Some (bits \<union> page_frags db page)\<rparr>))) \<and>
   (fragbits vs = Some bits \<and> wt_bt_verify_checkfrag db vs = (ret, vs') \<longrightarrow>
      (ret = OK \<longleftrightarrow> {0..<int (frags vs)} \<subseteq> bits) \<and> (ret = OK \<or> ret = WT_ERROR) \<and>
      (\<exists>out. errs vs' = errs vs @ out \<and>
             set out = never_verified ` {(a, b). max_run (unverified vs) a b})) \<and>
   (fragbits start = Some {} \<and> addfrag_all db pages start = (OK, walked) \<and>
    wt_bt_verify_checkfrag db walked = (OK, final) \<longrightarrow>
      (\<forall>i<length pages. \<forall>j<length pages. i \<noteq> j \<longrightarrow>
          page_frags db (pages ! i) \<inter> page_frags db (pages ! j) = {}) \<and>
      {0..<int (frags start)} \<subseteq> (\<Union>p\<in>set pages. page_frags db p))"
proof (intro conjI impI)
  assume "fragbits vs = Some bits"
  then show "wt_bt_verify_addfrag db page vs =
        (if page_frags db page \<inter> bits \<noteq> {}
         then (WT_ERROR, errx (Already_verified (p_addr page)) vs)
         else (OK, vs\<lparr>fragbits := Some (bits \<union> page_frags db page)\<rparr>))"
    by (rule addfrag_char)
next
  assume a: "fragbits vs = Some bits \<and> wt_bt_verify_checkfrag db vs = (ret, vs')"
  show "ret = OK \<longleftrightarrow> {0..<int (frags vs)} \<subseteq> bits"
    using checkfrag_char[of vs bits db ret vs'] a by blast
  show "ret = OK \<or> ret = WT_ERROR"
    using checkfrag_char[of vs bits db ret vs'] a by blast
  show "\<exists>out. errs vs' = errs vs @ out \<and>
             set out = never_verified ` {(a, b). max_run (unverified vs) a b}"
    using checkfrag_char[of vs bits db ret vs'] a by blast
next
  assume a: "fragbits start = Some {} \<and> addfrag_all db pages start = (OK, walked) \<and>
    wt_bt_verify_checkfrag db walked = (OK, final)"
  have all: "fragbits walked = Some ({} \<union> (\<Union>p\<in>set pages. page_frags db p))" "frags walked = frags start"
    "\<forall>i<length pages. \<forall>j<length pages. i \<noteq> j \<longrightarrow>
        page_frags db (pages ! i) \<inter> page_frags db (pages ! j) = {}"
    using addfrag_all_ok[of start "{}" db pages walked] a by auto
  show "\<forall>i<length pages. \<forall>j<length pages. i \<noteq> j \<longrightarrow>
          page_frags db (pages ! i) \<inter> page_frags db (pages ! j) = {}"
    by (rule all(3))
  show "{0..<int (frags start)} \<subseteq> (\<Union>p\<in>set pages. page_frags db p)"
    using checkfrag_char[OF all(1), of db OK final] a all(2) by simp
qed


lemma fragment_map_example:
  "fragbits frag_start = Some {} \<and>
   addfrag_all db0 frag_pages frag_start = (OK, frag_walked) \<and>
   wt_bt_verify_checkfrag db0 frag_walked = (OK, frag_walked) \<and>
   page_frags db0 (frag_pages ! 0) \<inter> page_frags db0 (frag_pages ! 1) = {} \<and>
   {0..<int (frags frag_start)} \<subseteq> (\<Union>p\<in>set frag_pages. page_frags db0 p)"
proof -
  have a: "fragbits frag_start = Some {}" by (simp add: frag_start_def)
  have s: "insert 0 {1..2} = {0, 1, (2::int)}" by auto
  have b: "addfrag_all db0 frag_pages frag_start = (OK, frag_walked)"
    by (simp add: frag_pages_def frag_start_def frag_walked_def wt_bt_verify_addfrag_def
          db0_def page0_def vstuff0_def WT_OFF_TO_ADDR_def bit_test_def bit_nset_def Let_def
          upt_rec s)
  have cl: "clears {0, 1, 2} 3 = []" by (simp add: clears_def upt_rec)
  have c: "wt_bt_verify_checkfrag db0 frag_walked = (OK, frag_walked)"
    by (simp add: wt_bt_verify_checkfrag_def frag_walked_def vstuff0_def checkfrag_loop_start cl)
  have len: "(0::nat) < length frag_pages" "(1::nat) < length frag_pages" "(0::nat) \<noteq> 1"
    by (simp_all add: frag_pages_def)
  note t = fragment_map_rules[of _ _ db0 _ _ _ frag_start frag_pages frag_walked frag_walked,
      THEN conjunct2, THEN conjunct2, THEN mp, OF conjI[OF a conjI[OF b c]]]
  note d = t[THEN conjunct1, rule_format, OF len]
  note e = t[THEN conjunct2]
  show ?thesis by (intro conjI a b c d e)
qed

subsection \<open>\<open>WT_PAGE_COL_RCC\<close> pages\<close>

lemma find_upt_Suc:
  "find P [k..<Suc (k + i)] = (if P k then Some k else find P [Suc k..<Suc (k + i)])"
proof -
  have "[k..<Suc (k + i)] = k # [Suc k..<Suc (k + i)]"
    using upt_conv_Cons[of k "Suc (k + i)"] by (simp del: upt_Suc)
  then show ?thesis by (simp del: upt_Suc)
qed

lemma col_rcc_loop_closed:
  "col_rcc_loop db (p_addr page) (rcc_entry db page k) i k
       (if k = 0 then None else Some (rcc_entry db page (k - 1))) vs =
   (case find (\<lambda>j. rcc_diag db page j \<noteq> None) [k..<k + i] of
      None \<Rightarrow> (OK, vs)
    | Some j \<Rightarrow> (WT_ERROR, errx (the (rcc_diag db page j)) vs))"
proof (induction i arbitrary: k)
  case 0
  then show ?case by simp
next
  case (Suc i)
  let ?len = "fixed_len db + 2"
  have past: "?len > length (rcc_entry db page k) \<longleftrightarrow> rcc_past_end db page k"
    by (auto simp: rcc_entry_def rcc_past_end_def)
  have nxt: "drop ?len (rcc_entry db page k) = rcc_entry db page (Suc k)"
    by (simp add: rcc_entry_def algebra_simps)
  have same: "(case (if k = 0 then None else Some (rcc_entry db page (k - 1))) of
                 None \<Rightarrow> False
               | Some l \<Rightarrow>
                   take (fixed_len db) (WT_RCC_REPEAT_DATA l) =
                   take (fixed_len db) (WT_RCC_REPEAT_DATA (rcc_entry db page k)) \<and>
                   WT_RCC_REPEAT_COUNT l < UINT16_MAX) \<longleftrightarrow> rcc_same db page k"
    by (simp add: rcc_same_def)
  show ?case
  proof (cases "rcc_diag db page k")
    case None
    then have g: "\<not> rcc_past_end db page k" "WT_RCC_REPEAT_COUNT (rcc_entry db page k) \<noteq> 0"
      "\<not> delfmt_bad db (WT_RCC_REPEAT_DATA (rcc_entry db page k))" "\<not> rcc_same db page k"
      by (auto simp: rcc_diag_def split: if_splits)
    have step: "col_rcc_loop db (p_addr page) (rcc_entry db page k) (Suc i) k
            (if k = 0 then None else Some (rcc_entry db page (k - 1))) vs =
          col_rcc_loop db (p_addr page) (rcc_entry db page (Suc k)) i (Suc k)
            (Some (rcc_entry db page k)) vs"
      using g past same nxt by (simp del: upt_Suc)
    have ih: "col_rcc_loop db (p_addr page) (rcc_entry db page (Suc k)) i (Suc k)
            (Some (rcc_entry db page k)) vs =
          (case find (\<lambda>j. rcc_diag db page j \<noteq> None) [Suc k..<Suc (k + i)] of
                      None \<Rightarrow> (OK, vs)
                    | Some j \<Rightarrow> (WT_ERROR, errx (the (rcc_diag db page j)) vs))"
      using Suc.IH[of "Suc k"] by (simp del: upt_Suc)
    show ?thesis
      unfolding step ih using None by (simp add: find_upt_Suc del: upt_Suc)
  next
    case (Some d)
    have step: "col_rcc_loop db (p_addr page) (rcc_entry db page k) (Suc i) k
            (if k = 0 then None else Some (rcc_entry db page (k - 1))) vs = (WT_ERROR, errx d vs)"
      using Some past same
      by (auto simp: rcc_diag_def wt_bt_verify_eop_def wt_bt_verify_delfmt_def split: if_splits)
    show ?thesis
      unfolding step using Some by (simp add: find_upt_Suc del: upt_Suc)
  qed
qed

text \<open>
  C8 (as amended): with a record length above 0, the walk of a \<open>WT_PAGE_COL_RCC\<close>
  page returns the diagnostic of the first entry that has one, and 0 when none has.
  It fails exactly when some entry extends past the end of the page, or has a repeat
  count of 0, or has a payload whose first byte has the deletion mark while that
  byte is not the deletion byte or one of the other \<open>fixed_len - 1\<close> bytes is not
  nul, or has the payload of the entry before it while the earlier entry's count is
  below \<open>UINT16_MAX\<close>, that is below \<open>2^16 - 1\<close>.
\<close>

theorem col_rcc_fails_iff:
  "0 < fixed_len db \<Longrightarrow>
   wt_bt_verify_page_col_rcc db page vs =
     (case find (\<lambda>k. rcc_diag db page k \<noteq> None) [0..<h_u page] of
        None \<Rightarrow> (OK, vs)
      | Some k \<Rightarrow> (WT_ERROR, errx (the (rcc_diag db page k)) vs)) \<and>
   (fst (wt_bt_verify_page_col_rcc db page vs) \<noteq> OK \<longleftrightarrow>
      (\<exists>k<h_u page.
          rcc_past_end db page k \<or>
          WT_RCC_REPEAT_COUNT (rcc_entry db page k) = 0 \<or>
          delfmt_bad db (WT_RCC_REPEAT_DATA (rcc_entry db page k)) \<or>
          rcc_same db page k))"
proof -
  have closed: "wt_bt_verify_page_col_rcc db page vs =
     (case find (\<lambda>k. rcc_diag db page k \<noteq> None) [0..<h_u page] of
        None \<Rightarrow> (OK, vs)
      | Some k \<Rightarrow> (WT_ERROR, errx (the (rcc_diag db page k)) vs))"
    using col_rcc_loop_closed[of db page 0 "h_u page" vs]
    by (simp add: wt_bt_verify_page_col_rcc_def rcc_entry_def)
  have bad: "rcc_diag db page k \<noteq> None \<longleftrightarrow>
          rcc_past_end db page k \<or>
          WT_RCC_REPEAT_COUNT (rcc_entry db page k) = 0 \<or>
          delfmt_bad db (WT_RCC_REPEAT_DATA (rcc_entry db page k)) \<or>
          rcc_same db page k" for k
    by (simp add: rcc_diag_def)
  have "fst (wt_bt_verify_page_col_rcc db page vs) \<noteq> OK \<longleftrightarrow>
        find (\<lambda>k. rcc_diag db page k \<noteq> None) [0..<h_u page] \<noteq> None"
    unfolding closed by (simp split: option.splits)
  also have "\<dots> \<longleftrightarrow> (\<exists>k<h_u page. rcc_diag db page k \<noteq> None)"
    by (auto simp: find_None_iff)
  finally show ?thesis using closed bad by simp
qed

text \<open>
  C8 as stated has the missed compression reported whenever the earlier count is
  below \<open>2^16\<close>, which every 16-bit count is. Two entries with the same payload,
  the first with count 65535: the page is accepted.
\<close>

theorem col_rcc_ceiling_counterexample:
  "fst (wt_bt_verify_page_col_rcc db0 rcc_page (vstuff0 False)) = OK \<and>
   fixed_len db0 = 2 \<and> h_u rcc_page = 2 \<and>
   take 2 (WT_RCC_REPEAT_DATA (rcc_entry db0 rcc_page 0)) =
   take 2 (WT_RCC_REPEAT_DATA (rcc_entry db0 rcc_page 1)) \<and>
   WT_RCC_REPEAT_COUNT (rcc_entry db0 rcc_page 0) = 65535 \<and>
   WT_RCC_REPEAT_COUNT (rcc_entry db0 rcc_page 0) < 2 ^ 16"
proof -
  have n: "h_u rcc_page = Suc (Suc 0)" by (simp add: rcc_page_def)
  have "wt_bt_verify_page_col_rcc db0 rcc_page (vstuff0 False) = (OK, vstuff0 False)"
    unfolding wt_bt_verify_page_col_rcc_def n
    by (simp add: rcc_page_def page0_def db0_def WT_RCC_REPEAT_COUNT_def
          WT_RCC_REPEAT_DATA_def UINT16_MAX_def delfmt_bad_def)
  then show ?thesis
    by (simp add: rcc_page_def page0_def db0_def WT_RCC_REPEAT_COUNT_def
          WT_RCC_REPEAT_DATA_def rcc_entry_def)
qed


theorem col_rcc_fails_iff_witness:
  "0 < fixed_len db0 \<and>
   wt_bt_verify_page_col_rcc db0 rcc_page_same (vstuff0 False) =
     (WT_ERROR, errx (Should_have_been_compressed 2 1 2) (vstuff0 False)) \<and>
   rcc_same db0 rcc_page_same (Suc 0)"
proof -
  have p: "0 < fixed_len db0" by (simp add: db0_def)
  have d0: "rcc_diag db0 rcc_page_same 0 = None"
    by (simp add: rcc_diag_def rcc_past_end_def rcc_same_def rcc_entry_def rcc_page_same_def
          rcc_page_def page0_def db0_def WT_RCC_REPEAT_COUNT_def WT_RCC_REPEAT_DATA_def
          delfmt_bad_def)
  have s1: "rcc_same db0 rcc_page_same (Suc 0)"
    by (simp add: rcc_same_def rcc_entry_def rcc_page_same_def rcc_page_def page0_def db0_def
          WT_RCC_REPEAT_COUNT_def WT_RCC_REPEAT_DATA_def UINT16_MAX_def)
  have d1: "rcc_diag db0 rcc_page_same (Suc 0) = Some (Should_have_been_compressed 2 1 2)"
    using s1
    by (simp add: rcc_diag_def rcc_past_end_def rcc_entry_def rcc_page_same_def
          rcc_page_def page0_def db0_def WT_RCC_REPEAT_COUNT_def WT_RCC_REPEAT_DATA_def
          delfmt_bad_def)
  have n: "[0..<h_u rcc_page_same] = [0, 1]"
    by (simp add: rcc_page_same_def rcc_page_def upt_rec)
  show ?thesis
    using col_rcc_fails_iff[OF p, of rcc_page_same "vstuff0 False", THEN conjunct1] p s1
    by (simp add: n d0 d1)
qed

subsection \<open>The key comparator\<close>

lemma cmp_result_fst:
  "fst (cmp_result first_entry c addr vs) =
     (if (first_entry \<and> c < 0) \<or> (\<not> first_entry \<and> 0 \<le> c) then WT_ERROR else OK)"
  by (auto simp: cmp_result_def)

lemma cmp_result_errs:
  "errs (snd (cmp_result first_entry c addr vs)) =
     errs vs @ (if first_entry \<and> c < 0 then [First_key_sorts_before addr]
                else if \<not> first_entry \<and> 0 \<le> c then [Last_key_sorts_after addr] else [])"
  by (auto simp: cmp_result_def errx_def)

lemma cmp_err_errs: "errs (cmp_err a b c d vs) = errs vs"
  by (simp add: cmp_err_def Let_def scr_release_def page_out_def)

lemma pin_errs: "errs (pin vs) = errs vs"
  by (simp add: pin_def)

lemma scr_alloc_Some: "scr vs < scr_pool db \<Longrightarrow> scr_alloc db vs = Some (vs\<lparr>scr := scr vs + 1\<rparr>)"
  by (simp add: scr_alloc_def)

lemma cmp_parent_keys:
  assumes "parent_key db parent_rip vs = Some pd"
  shows "fst (cmp_parent db func parent_rip child first_entry cd s1 co vs) =
           (if (first_entry \<and> func cd pd < 0) \<or> (\<not> first_entry \<and> 0 \<le> func cd pd)
            then WT_ERROR else OK) \<and>
         errs (snd (cmp_parent db func parent_rip child first_entry cd s1 co vs)) =
           errs vs @ (if first_entry \<and> func cd pd < 0 then [First_key_sorts_before (p_addr child)]
                      else if \<not> first_entry \<and> 0 \<le> func cd pd
                        then [Last_key_sorts_after (p_addr child)] else [])"
proof (cases "r_key parent_rip")
  case (Key_bytes b)
  then have "b = pd" using assms by (simp add: parent_key_def)
  then show ?thesis
    using Key_bytes
    by (simp add: cmp_parent_def case_prod_beta cmp_result_fst cmp_result_errs cmp_err_errs)
next
  case (Key_item pitem)
  then obtain r where r: "scr vs < scr_pool db" "item_process db pitem = Some r" "processed_key r = pd"
    using assms by (auto simp: parent_key_def split: if_splits)
  show ?thesis
    using Key_item r
    by (simp add: cmp_parent_def scr_alloc_def case_prod_beta cmp_result_fst cmp_result_errs
          cmp_err_errs pin_errs)
qed

lemma cmp_keys_child_bytes:
  "r_key (cmp_child_rip child first_entry) = Key_bytes cd \<Longrightarrow>
   cmp_keys db parent_rip child first_entry vs = map_option (Pair cd) (parent_key db parent_rip vs)"
  by (auto simp: cmp_keys_def parent_key_def option.map_comp o_def split: rowkey.splits)

lemma parent_key_pin: "parent_key db parent_rip (pin vs) = parent_key db parent_rip vs"
  by (simp add: parent_key_def pin_def split: rowkey.splits)

lemma cmp_keys_child_item:
  assumes "r_key (cmp_child_rip child first_entry) = Key_item citem"
    and "cmp_keys db parent_rip child first_entry vs = Some (cd, pd)"
  shows "scr vs < scr_pool db \<and>
   (\<exists>c. item_process db citem = Some c \<and> processed_key c = cd \<and>
        parent_key db parent_rip (vs\<lparr>scr := scr vs + 1\<rparr>) = Some pd)"
proof -
  have a: "scr vs < scr_pool db"
    using assms by (simp add: cmp_keys_def split: if_splits)
  then obtain c where c: "item_process db citem = Some c"
    using assms by (cases "item_process db citem") (simp_all add: cmp_keys_def)
  have "processed_key c = cd \<and> parent_key db parent_rip (vs\<lparr>scr := scr vs + 1\<rparr>) = Some pd"
    using assms a c
    by (cases "r_key parent_rip") (auto simp: cmp_keys_def parent_key_def split: if_splits)
  then show ?thesis using a c by blast
qed

lemma verify_cmp_keys:
  assumes f: "cmp_func db (h_type child) = Some func"
    and k: "cmp_keys db parent_rip child first_entry vs = Some (cd, pd)"
  shows "fst (wt_bt_verify_cmp db parent_rip child first_entry vs) =
           (if (first_entry \<and> func cd pd < 0) \<or> (\<not> first_entry \<and> 0 \<le> func cd pd)
            then WT_ERROR else OK) \<and>
         errs (snd (wt_bt_verify_cmp db parent_rip child first_entry vs)) =
           errs vs @ (if first_entry \<and> func cd pd < 0 then [First_key_sorts_before (p_addr child)]
                      else if \<not> first_entry \<and> 0 \<le> func cd pd
                        then [Last_key_sorts_after (p_addr child)] else [])"
proof (cases "r_key (cmp_child_rip child first_entry)")
  case (Key_bytes b)
  then have pk: "parent_key db parent_rip vs = Some pd" and b: "b = cd"
    using k by (auto simp: cmp_keys_child_bytes)
  have "wt_bt_verify_cmp db parent_rip child first_entry vs =
        cmp_parent db func parent_rip child first_entry cd False False vs"
    using f Key_bytes b by (simp add: wt_bt_verify_cmp_def cmp_child_rip_def Let_def)
  then show ?thesis using cmp_parent_keys[OF pk] by simp
next
  case (Key_item citem)
  from cmp_keys_child_item[OF Key_item k]
  obtain c where c: "scr vs < scr_pool db" "item_process db citem = Some c" "processed_key c = cd"
    and pk: "parent_key db parent_rip (vs\<lparr>scr := scr vs + 1\<rparr>) = Some pd"
    by blast
  have c4: "parent_key db parent_rip
       (if snd c \<noteq> None then pin (vs\<lparr>scr := scr vs + 1\<rparr>) else vs\<lparr>scr := scr vs + 1\<rparr>) = Some pd"
    using pk by (simp add: parent_key_pin)
  have "wt_bt_verify_cmp db parent_rip child first_entry vs =
        cmp_parent db func parent_rip child first_entry cd True (snd c \<noteq> None)
          (if snd c \<noteq> None then pin (vs\<lparr>scr := scr vs + 1\<rparr>) else vs\<lparr>scr := scr vs + 1\<rparr>)"
    using f Key_item c
    by (simp add: wt_bt_verify_cmp_def cmp_child_rip_def Let_def scr_alloc_def)
  then show ?thesis using cmp_parent_keys[OF c4] by (simp add: pin_errs)
qed


lemma cmp_func_collation: "row_or_dup t \<Longrightarrow> cmp_func db t = Some (collation db t)"
  by (auto simp: row_or_dup_def cmp_func_def collation_def)

lemma tree_checks_row:
  assumes "row_or_dup (h_type page)" "level \<noteq> WT_NOLEVEL db" "h_level page = level"
    "p_records page = o_records off" "h_start_recno page = 0"
  shows "tree_checks db (Some rip) start_recno level off page vs =
           WT_ERR (wt_bt_verify_cmp db rip page True vs)"
  using assms by (auto simp: tree_checks_def row_or_dup_def Let_def)

lemma leaf_cmp_fst:
  "leaf vs = Some l \<Longrightarrow> fst (leaf_cmp db rip vs) = fst (wt_bt_verify_cmp db rip l False vs)"
  by (simp add: leaf_cmp_def case_prod_beta)

text \<open>
  C4: for a row or duplicate child page and keys the comparator gets hold of, the
  comparison fails exactly when the boundary is violated. The collation of the
  child's page type is applied to the child's key and the parent's key, in this
  order: in first-entry mode a result below 0 is the error \<open>first key sorts before
  its reference key\<close>, in last-entry mode a result of 0 or more is the error \<open>last
  key sorts after a parent page's key\<close>, and anything else is accepted without a
  diagnostic. The walk makes the first-entry comparison for every non-root row or
  duplicate page that passed the level, record count and starting record checks,
  against the parent entry that led to it, under \<open>WT_ERR\<close> (a failed comparison ends
  the walk of the page with the comparison's status), and the last-entry comparison
  for the saved leaf against the entry about to be followed.
\<close>

theorem boundary_comparison:
  "(row_or_dup (h_type child) \<and> cmp_keys db parent_rip child first_entry vs = Some (cd, pd) \<longrightarrow>
      fst (wt_bt_verify_cmp db parent_rip child first_entry vs) =
        (if (first_entry \<and> collation db (h_type child) cd pd < 0) \<or>
            (\<not> first_entry \<and> 0 \<le> collation db (h_type child) cd pd)
         then WT_ERROR else OK) \<and>
      errs (snd (wt_bt_verify_cmp db parent_rip child first_entry vs)) =
        errs vs @
        (if first_entry \<and> collation db (h_type child) cd pd < 0
           then [First_key_sorts_before (p_addr child)]
         else if \<not> first_entry \<and> 0 \<le> collation db (h_type child) cd pd
           then [Last_key_sorts_after (p_addr child)]
         else [])) \<and>
   (row_or_dup (h_type page) \<and> level \<noteq> WT_NOLEVEL db \<and> h_level page = level \<and>
    p_records page = o_records off \<and> h_start_recno page = 0 \<longrightarrow>
      tree_checks db (Some rip) start_recno level off page vs =
        WT_ERR (wt_bt_verify_cmp db rip page True vs)) \<and>
   (leaf vs = Some l \<longrightarrow>
      fst (leaf_cmp db rip vs) = fst (wt_bt_verify_cmp db rip l False vs))"
proof (intro conjI impI)
  assume a: "row_or_dup (h_type child) \<and>
             cmp_keys db parent_rip child first_entry vs = Some (cd, pd)"
  note t = verify_cmp_keys[OF cmp_func_collation[OF conjunct1[OF a]] conjunct2[OF a]]
  show "fst (wt_bt_verify_cmp db parent_rip child first_entry vs) =
        (if (first_entry \<and> collation db (h_type child) cd pd < 0) \<or>
            (\<not> first_entry \<and> 0 \<le> collation db (h_type child) cd pd)
         then WT_ERROR else OK)"
    by (rule t[THEN conjunct1])
  show "errs (snd (wt_bt_verify_cmp db parent_rip child first_entry vs)) =
        errs vs @
        (if first_entry \<and> collation db (h_type child) cd pd < 0
           then [First_key_sorts_before (p_addr child)]
         else if \<not> first_entry \<and> 0 \<le> collation db (h_type child) cd pd
           then [Last_key_sorts_after (p_addr child)]
         else [])"
    by (rule t[THEN conjunct2])
next
  assume "row_or_dup (h_type page) \<and> level \<noteq> WT_NOLEVEL db \<and> h_level page = level \<and>
    p_records page = o_records off \<and> h_start_recno page = 0"
  then show "tree_checks db (Some rip) start_recno level off page vs =
        WT_ERR (wt_bt_verify_cmp db rip page True vs)"
    using tree_checks_row by blast
next
  assume "leaf vs = Some l"
  then show "fst (leaf_cmp db rip vs) = fst (wt_bt_verify_cmp db rip l False vs)"
    by (rule leaf_cmp_fst)
qed

theorem boundary_comparison_witness:
  "row_or_dup (h_type row_child) \<and>
   cmp_keys db0 row_parent row_child True (vstuff0 False) = Some ([2], [3]) \<and>
   collation db0 (h_type row_child) [2] [3] < 0 \<and>
   fst (wt_bt_verify_cmp db0 row_parent row_child True (vstuff0 False)) = WT_ERROR \<and>
   errs (snd (wt_bt_verify_cmp db0 row_parent row_child True (vstuff0 False))) =
     [First_key_sorts_before 2]"
proof -
  have a: "row_or_dup (h_type row_child)"
    by (simp add: row_or_dup_def row_child_def)
  have b: "cmp_keys db0 row_parent row_child True (vstuff0 False) = Some ([2], [3])"
    by (simp add: cmp_keys_def cmp_child_rip_def row_child_def row_parent_def)
  have c: "collation db0 (h_type row_child) [2] [3] < 0"
    by (simp add: collation_def row_child_def db0_def)
  note t = boundary_comparison[of row_child db0 row_parent True "vstuff0 False" "[2]" "[3]",
      THEN conjunct1, THEN mp, OF conjI[OF a b]]
  show ?thesis
    using t a b c by (simp add: vstuff0_def row_child_def)
qed

subsection \<open>Release of pages and scratch buffers\<close>

text \<open>
  C2: the claim is that every exit of the verifier has released what it pinned and
  allocated, the comparator in particular when processing the parent's key fails.
  The source leaves the comparator through \<open>WT_RET\<close> there, not through \<open>err\<close>.
  At the input \<open>leak_db\<close>, \<open>leak_parent\<close>, \<open>leak_child\<close> the child's key is an overflow key that is processed with
  success (one scratch buffer, one pinned overflow page) and the processing of the
  parent's key fails (after a second scratch buffer was allocated): the comparator
  returns holding two scratch buffers and one pinned page.
\<close>

theorem cmp_parent_failure_leaks:
  "wt_bt_verify_cmp leak_db leak_parent leak_child True (vstuff0 False) =
     (Collab_error, (vstuff0 False)\<lparr>pins := 1, scr := 2\<rparr>) \<and>
   pins (vstuff0 False) = 0 \<and> scr (vstuff0 False) = 0"
  by (simp add: wt_bt_verify_cmp_def cmp_parent_def cmp_func_def leak_db_def leak_child_def
        leak_parent_def row_child_def page0_def item0_def db0_def vstuff0_def scr_alloc_def
        pin_def processed_key_def Let_def)

subsection \<open>Files too large to verify\<close>

text \<open>
  C1: the claim is that a file with more fragments than \<open>INT_MAX\<close> makes the
  verifier emit \<open>file is too large to verify\<close> and return a nonzero status without
  walking the tree. At a file of \<open>2^31\<close> fragments of 512 bytes the source emits the
  diagnostic and walks nothing, whatever the fuel, but \<open>ret\<close> is still 0 when it
  leaves through \<open>goto err\<close>: the verifier returns 0.
\<close>

theorem verify_too_large_returns_ok:
  "wt_bt_verify n big_db False =
     Some (OK, (vstuff0 False)\<lparr>frags := 2147483648, errs := [File_too_large]\<rparr>) \<and>
   file_size big_db div allocsize big_db = 2147483648 \<and> INT_MAX big_db = 2147483647"
  by (simp add: wt_bt_verify_def big_db_def db0_def vstuff0_def WT_OFF_TO_ADDR_def
        verify_err_def release_leaf_def errx_def Let_def)

subsection \<open>The checks of the walk\<close>

text \<open>
  A page that \<open>__wt_bt_verify_page\<close> accepts has the level of its type: the
  descriptor page \<open>WT_NOLEVEL\<close>, the leaf and overflow types \<open>WT_LLEAF\<close>, the
  internal types a level above \<open>WT_LLEAF\<close>.
\<close>

lemma level_check_OK: "level_check db page vs = (OK, vs') \<Longrightarrow> level_rule db page"
  by (cases "h_type page")
     (auto simp: level_check_def level_rule_def Let_def wt_database_format_def split: if_splits)

lemma verify_page_hdr_OK: "verify_page_hdr db page vs = (OK, vs') \<Longrightarrow> level_rule db page"
proof -
  assume a: "verify_page_hdr db page vs = (OK, vs')"
  obtain r1 vs1 where af: "(if fragbits (page_progress vs) \<noteq> None
                            then wt_bt_verify_addfrag db page (page_progress vs)
                            else (OK, page_progress vs)) = (r1, vs1)"
    by (cases "if fragbits (page_progress vs) \<noteq> None
               then wt_bt_verify_addfrag db page (page_progress vs)
               else (OK, page_progress vs)") auto
  obtain r2 vs2 where lc: "level_check db page vs1 = (r2, vs2)"
    by (cases "level_check db page vs1") auto
  have "r2 = OK"
    using a af lc by (auto simp: verify_page_hdr_def Let_def split: if_splits)
  then show ?thesis using lc level_check_OK by blast
qed

lemma verify_page_level_rule: "wt_bt_verify_page m db page vs = Some (OK, vs') \<Longrightarrow> level_rule db page"
proof (cases m)
  case 0
  assume "wt_bt_verify_page m db page vs = Some (OK, vs')"
  then show ?thesis using 0 by (simp add: wt_bt_verify_page.simps)
next
  case (Suc n)
  assume a: "wt_bt_verify_page m db page vs = Some (OK, vs')"
  obtain r vs1 where h: "verify_page_hdr db page vs = (r, vs1)"
    by (cases "verify_page_hdr db page vs") auto
  have "r = OK" using a h Suc by (auto simp: wt_bt_verify_page.simps split: if_splits)
  then show ?thesis using h verify_page_hdr_OK by blast
qed

text \<open>
  The verification of a file of the shape \<open>tree_db\<close>, whatever the level \<open>l\<close> of
  the root (above \<open>WT_LLEAF\<close>), the record count \<open>c\<close> in the root's reference to
  the second leaf and the first record number \<open>s\<close> of the second leaf, when the
  file's size gives four fragments: every page is read and registered, the scan of
  the fragment map finds no clear bit, and the verification returns 0 with the
  diagnostics of the checks of the two leaves against the root.
\<close>

lemma page_out_pin: "page_out (pin vs) = vs"
  by (simp add: page_out_def pin_def)

lemma pin_quiet:
  "fragbits (pin vs) = fragbits vs" "f_set (pin vs) = f_set vs" "leaf (pin vs) = leaf vs"
  by (simp_all add: pin_def)

lemma desc_page_ok:
  "fragbits vs = Some bits \<Longrightarrow> 0 \<notin> bits \<Longrightarrow> \<not> f_set vs \<Longrightarrow>
   wt_bt_verify_page (Suc n) (tree_db fs r a b) page0 vs =
     Some (OK, vs\<lparr>fragbits := Some (insert 0 bits)\<rparr>)"
  by (simp add: wt_bt_verify_page.simps verify_page_hdr_def page_progress_def
        wt_bt_verify_addfrag_def WT_OFF_TO_ADDR_def bit_test_def bit_nset_def
        page0_def desc0_def known_type_def level_check_def tree_db_def db0_def
        item_page_def verify_page_other_def wt_bt_verify_page_desc_def desc_checks_def Let_def)

lemma leaf_a_page_ok:
  "fragbits vs = Some bits \<Longrightarrow> 2 \<notin> bits \<Longrightarrow> \<not> f_set vs \<Longrightarrow>
   wt_bt_verify_page (Suc n) (tree_db fs r a b) col_leaf_a vs =
     Some (OK, vs\<lparr>fragbits := Some (insert 2 bits)\<rparr>)"
  by (simp add: wt_bt_verify_page.simps verify_page_hdr_def page_progress_def
        wt_bt_verify_addfrag_def WT_OFF_TO_ADDR_def bit_test_def bit_nset_def
        col_leaf_a_def page0_def known_type_def level_check_def tree_db_def db0_def
        item_page_def verify_page_other_def wt_bt_verify_page_col_fix_def delfmt_bad_def
        numeral_3_eq_3 Let_def)

lemma leaf_b_page_ok:
  "fragbits vs = Some bits \<Longrightarrow> 3 \<notin> bits \<Longrightarrow> \<not> f_set vs \<Longrightarrow>
   wt_bt_verify_page (Suc n) (tree_db fs r a b) (col_leaf_b\<lparr>h_start_recno := s\<rparr>) vs =
     Some (OK, vs\<lparr>fragbits := Some (insert 3 bits)\<rparr>)"
  by (simp add: wt_bt_verify_page.simps verify_page_hdr_def page_progress_def
        wt_bt_verify_addfrag_def WT_OFF_TO_ADDR_def bit_test_def bit_nset_def
        col_leaf_b_def page0_def known_type_def level_check_def tree_db_def db0_def
        item_page_def verify_page_other_def wt_bt_verify_page_col_fix_def delfmt_bad_def
        numeral_2_eq_2 Let_def)

lemma root_page_ok:
  "fragbits vs = Some bits \<Longrightarrow> 1 \<notin> bits \<Longrightarrow> \<not> f_set vs \<Longrightarrow> 1 < l \<Longrightarrow> 2048 \<le> fs \<Longrightarrow>
   wt_bt_verify_page (Suc n) (tree_db fs r a b)
       (col_root\<lparr>h_level := l, p_offs := [col_off_a, col_off_b\<lparr>o_records := c\<rparr>],
                  p_icol := [col_off_a, col_off_b\<lparr>o_records := c\<rparr>]\<rparr>) vs =
     Some (OK, vs\<lparr>fragbits := Some (insert 1 bits)\<rparr>)"
  by (simp add: wt_bt_verify_page.simps verify_page_hdr_def page_progress_def
        wt_bt_verify_addfrag_def WT_OFF_TO_ADDR_def bit_test_def bit_nset_def
        col_root_def page0_def known_type_def level_check_def tree_db_def db0_def
        item_page_def verify_page_other_def wt_bt_verify_page_col_int_def
        col_off_a_def col_off_b_def WT_ADDR_TO_OFF_def word_le_nat_alt word_less_nat_alt Let_def)

lemma leaf_a_tree:
  assumes "fragbits vs = Some bits" "2 \<notin> bits" "\<not> f_set vs" "leaf vs = None" "lv \<noteq> 0"
  shows "wt_bt_verify_tree (Suc (Suc n)) (tree_db fs r col_leaf_a b) None 1 lv col_off_a vs =
     Some (OK, vs\<lparr>fragbits := Some (insert 2 bits),
                    errs := errs vs @ (if lv \<noteq> 1 then [Tree_level 2 1 lv] else [])\<rparr>)"
proof -
  let ?db = "tree_db fs r col_leaf_a b"
  let ?vs1 = "(pin vs)\<lparr>fragbits := Some (insert 2 bits)\<rparr>"
  have p: "page_in ?db (o_addr col_off_a) (o_size col_off_a) = Some col_leaf_a"
    by (simp add: tree_db_def col_off_a_def)
  have v: "wt_bt_verify_page (Suc n) ?db col_leaf_a (pin vs) = Some (OK, ?vs1)"
    using assms by (simp add: leaf_a_page_ok pin_quiet)
  have i: "p_indx col_leaf_a" and k: "page_kind (h_type col_leaf_a) = Col_leaf"
    by (simp_all add: col_leaf_a_def page0_def page_kind_def)
  have t: "tree_checks ?db None 1 lv col_off_a col_leaf_a ?vs1 =
             (if lv \<noteq> 1 then (Some OK, errx (Tree_level 2 1 lv) ?vs1) else (None, ?vs1))"
    using assms(5)
    by (simp add: tree_checks_def tree_db_def db0_def col_leaf_a_def col_off_a_def)
  have o: "page_out ?vs1 = vs\<lparr>fragbits := Some (insert 2 bits)\<rparr>"
    "page_out (release_leaf (errx d ?vs1)) =
       vs\<lparr>fragbits := Some (insert 2 bits), errs := errs vs @ [d]\<rparr>" for d
    using assms(4) by (simp_all add: page_out_def pin_def release_leaf_def errx_def)
  show ?thesis
    by (simp add: wt_bt_verify_tree.simps p v i k t tree_err_def o)
qed

lemma leaf_b_tree:
  assumes "fragbits vs = Some bits" "3 \<notin> bits" "\<not> f_set vs" "leaf vs = None" "lv \<noteq> 0"
  shows "wt_bt_verify_tree (Suc (Suc n)) (tree_db fs r a (col_leaf_b\<lparr>h_start_recno := s\<rparr>)) None sr lv
           (col_off_b\<lparr>o_records := c\<rparr>) vs =
     Some (OK, vs\<lparr>fragbits := Some (insert 3 bits),
                    errs := errs vs @
                      (if lv \<noteq> 1 then [Tree_level 3 1 lv]
                       else if c \<noteq> 2 then [Record_count 3 2 c]
                       else if s \<noteq> sr then [Starting_record 3 s sr]
                       else [])\<rparr>)"
proof -
  let ?b = "col_leaf_b\<lparr>h_start_recno := s\<rparr>"
  let ?db = "tree_db fs r a ?b"
  let ?off = "col_off_b\<lparr>o_records := c\<rparr>"
  let ?vs1 = "(pin vs)\<lparr>fragbits := Some (insert 3 bits)\<rparr>"
  have p: "page_in ?db (o_addr col_off_b) (o_size col_off_b) = Some ?b"
    by (simp add: tree_db_def col_off_b_def)
  have v: "wt_bt_verify_page (Suc n) ?db ?b (pin vs) = Some (OK, ?vs1)"
    using assms by (simp add: leaf_b_page_ok pin_quiet)
  have i: "p_indx col_leaf_b" and k: "page_kind (h_type col_leaf_b) = Col_leaf"
    by (simp_all add: col_leaf_b_def page0_def page_kind_def)
  have t: "tree_checks ?db None sr lv ?off ?b ?vs1 =
             (if lv \<noteq> 1 then (Some OK, errx (Tree_level 3 1 lv) ?vs1)
              else if c \<noteq> 2 then (Some OK, errx (Record_count 3 2 c) ?vs1)
              else if s \<noteq> sr then (Some OK, errx (Starting_record 3 s sr) ?vs1)
              else (None, ?vs1))"
    using assms(5)
    by (simp add: tree_checks_def tree_db_def db0_def col_leaf_b_def col_off_b_def)
  have o: "page_out ?vs1 = vs\<lparr>fragbits := Some (insert 3 bits)\<rparr>"
    "page_out (release_leaf (errx d ?vs1)) =
       vs\<lparr>fragbits := Some (insert 3 bits), errs := errs vs @ [d]\<rparr>" for d
    using assms(4) by (simp_all add: page_out_def pin_def release_leaf_def errx_def)
  show ?thesis
    by (simp add: wt_bt_verify_tree.simps p v i k t tree_err_def o)
qed

lemma root_tree:
  fixes l :: "32 word" and c s :: "64 word" and fs :: nat
  defines "root \<equiv> col_root\<lparr>h_level := l, p_offs := [col_off_a, col_off_b\<lparr>o_records := c\<rparr>],
                              p_icol := [col_off_a, col_off_b\<lparr>o_records := c\<rparr>]\<rparr>"
  defines "db \<equiv> tree_db fs root col_leaf_a (col_leaf_b\<lparr>h_start_recno := s\<rparr>)"
  assumes "fragbits vs = Some bits" "1 \<notin> bits" "2 \<notin> bits" "3 \<notin> bits" "\<not> f_set vs" "leaf vs = None"
    and l: "1 < l" and fs: "2048 \<le> fs"
  shows "wt_bt_verify_tree (Suc (Suc (Suc n))) db None 0 (WT_NOLEVEL db)
           \<lparr>o_addr = root_addr db, o_size = root_size db, o_records = 0\<rparr> vs =
     Some (OK, vs\<lparr>fragbits := Some (insert 3 (insert 2 (insert 1 bits))),
                    errs := errs vs @
                      (if l - 1 \<noteq> 1 then [Tree_level 2 1 (l - 1)] else []) @
                      (if l - 1 \<noteq> 1 then [Tree_level 3 1 (l - 1)]
                       else if c \<noteq> 2 then [Record_count 3 2 c]
                       else if s \<noteq> 4 then [Starting_record 3 s 4]
                       else [])\<rparr>)"
proof -
  let ?vs1 = "(pin vs)\<lparr>fragbits := Some (insert 1 bits)\<rparr>"
  let ?da = "if l - 1 \<noteq> 1 then [Tree_level 2 1 (l - 1)] else []"
  let ?db' = "if l - 1 \<noteq> 1 then [Tree_level 3 1 (l - 1)]
              else if c \<noteq> 2 then [Record_count 3 2 c]
              else if s \<noteq> 4 then [Starting_record 3 s 4] else []"
  let ?vsA = "?vs1\<lparr>fragbits := Some (insert 2 (insert 1 bits)), errs := errs ?vs1 @ ?da\<rparr>"
  let ?vsB = "?vsA\<lparr>fragbits := Some (insert 3 (insert 2 (insert 1 bits))),
                     errs := errs ?vsA @ ?db'\<rparr>"
  have nl: "WT_NOLEVEL db = 0" "root_addr db = 1" "root_size db = 512"
    by (simp_all add: db_def tree_db_def db0_def)
  have l1: "l - 1 \<noteq> 0" using l by auto
  have p: "page_in db 1 512 = Some root"
    by (simp add: db_def tree_db_def)
  have v: "wt_bt_verify_page (Suc (Suc n)) db root (pin vs) = Some (OK, ?vs1)"
    unfolding db_def root_def using assms(3,4,7) l fs by (simp add: root_page_ok pin_quiet)
  have i: "p_indx root" and k: "page_kind (h_type root) = Col_int"
    and h: "h_start_recno root = 1" "h_level root = l"
    and c: "p_icol root = [col_off_a, col_off_b\<lparr>o_records := c\<rparr>]"
    by (simp_all add: root_def col_root_def page0_def page_kind_def)
  have t: "tree_checks db None 0 0 \<lparr>o_addr = 1, o_size = 512, o_records = 0\<rparr> root ?vs1 =
             (None, ?vs1)"
    by (simp add: tree_checks_def db_def tree_db_def db0_def root_def col_root_def)
  have a: "wt_bt_verify_tree (Suc (Suc n)) db None 1 (l - 1) col_off_a ?vs1 = Some (OK, ?vsA)"
    unfolding db_def
    by (rule leaf_a_tree) (use assms l1 in \<open>simp_all add: pin_def\<close>)
  have r: "1 + o_records col_off_a = 4" by (simp add: col_off_a_def)
  have b: "wt_bt_verify_tree (Suc (Suc n)) db None 4 (l - 1) (col_off_b\<lparr>o_records := c\<rparr>) ?vsA =
             Some (OK, ?vsB)"
    unfolding db_def
    by (rule leaf_b_tree) (use assms l1 in \<open>simp_all add: pin_def\<close>)
  have lp: "col_loop (Suc (Suc n)) db 1 (l - 1) [col_off_a, col_off_b\<lparr>o_records := c\<rparr>] ?vs1 =
             Some (OK, ?vsB)"
    by (simp only: col_loop.simps a b r option.case prod.case simp_thms if_False)
  have o: "page_out (release_leaf ?vsB) =
             vs\<lparr>fragbits := Some (insert 3 (insert 2 (insert 1 bits))),
                 errs := errs vs @ ?da @ ?db'\<rparr>"
    using assms(8) by (simp add: release_leaf_def page_out_def pin_def)
  have w: "wt_bt_verify_tree (Suc (Suc (Suc n))) db None 0 0
             \<lparr>o_addr = 1, o_size = 512, o_records = 0\<rparr> vs = Some (tree_err OK ?vsB)"
    by (simp only: wt_bt_verify_tree.simps WT_OFF.select_convs p v i k h c t lp nl
          option.case prod.case walk_kind.case simp_thms if_True if_False Let_def)
  show ?thesis
    unfolding nl w tree_err_def o by simp
qed


lemma checkfrag_covered:
  assumes "fragbits vs = Some bits" "clears bits (int (frags vs)) = []"
  shows "wt_bt_verify_checkfrag db vs = (OK, vs)"
proof -
  have "vs\<lparr>fragbits := Some bits\<rparr> = vs" using assms(1) by simp
  then show ?thesis
    using assms by (simp add: wt_bt_verify_checkfrag_def checkfrag_loop_start)
qed

lemma tree_db_verify:
  fixes l :: "32 word" and c s :: "64 word" and fs :: nat
  defines "root \<equiv> col_root\<lparr>h_level := l, p_offs := [col_off_a, col_off_b\<lparr>o_records := c\<rparr>],
                              p_icol := [col_off_a, col_off_b\<lparr>o_records := c\<rparr>]\<rparr>"
  defines "db \<equiv> tree_db fs root col_leaf_a (col_leaf_b\<lparr>h_start_recno := s\<rparr>)"
  assumes l: "1 < l" and fs: "2048 \<le> fs" and fr: "fs div 512 mod 2 ^ 32 = 4"
  shows "wt_bt_verify (Suc (Suc (Suc n))) db False =
     Some (OK, (vstuff0 False)\<lparr>frags := 4,
                 errs := (if l - 1 \<noteq> 1 then [Tree_level 2 1 (l - 1)] else []) @
                         (if l - 1 \<noteq> 1 then [Tree_level 3 1 (l - 1)]
                          else if c \<noteq> 2 then [Record_count 3 2 c]
                          else if s \<noteq> 4 then [Starting_record 3 s 4]
                          else [])\<rparr>)"
proof -
  let ?ds = "(if l - 1 \<noteq> 1 then [Tree_level 2 1 (l - 1)] else []) @
             (if l - 1 \<noteq> 1 then [Tree_level 3 1 (l - 1)]
              else if c \<noteq> 2 then [Record_count 3 2 c]
              else if s \<noteq> 4 then [Starting_record 3 s 4]
              else [])"
  let ?vs0 = "(vstuff0 False)\<lparr>frags := 4\<rparr>\<lparr>fragbits := Some {}\<rparr>"
  let ?vsD = "(pin ?vs0)\<lparr>fragbits := Some (insert 0 {})\<rparr>"
  let ?vsT = "?vsD\<lparr>fragbits := Some (insert 3 (insert 2 (insert 1 (insert 0 {})))),
                     errs := errs ?vsD @ ?ds\<rparr>"
  have f: "WT_OFF_TO_ADDR db (file_size db) mod 2 ^ 32 = 4"
    using fr by (simp add: db_def tree_db_def db0_def WT_OFF_TO_ADDR_def)
  have im: "\<not> INT_MAX db < 4" and ba: "bit_alloc_ok db"
    by (simp_all add: db_def tree_db_def db0_def)
  have p: "page_in db 0 512 = Some page0"
    by (simp add: db_def tree_db_def)
  have d: "wt_bt_verify_page (Suc (Suc (Suc n))) db page0 (pin ?vs0) = Some (OK, ?vsD)"
    unfolding db_def by (rule desc_page_ok) (simp_all add: pin_def vstuff0_def)
  have t: "wt_bt_verify_tree (Suc (Suc (Suc n))) db None 0 (WT_NOLEVEL db)
             \<lparr>o_addr = root_addr db, o_size = root_size db, o_records = 0\<rparr> ?vsD = Some (OK, ?vsT)"
    unfolding db_def root_def
    by (rule root_tree) (use l fs in \<open>simp_all add: pin_def vstuff0_def\<close>)
  have cl: "clears (insert 3 (insert 2 (insert 1 (insert 0 {})))) 4 = []"
    by (simp add: clears_def upt_rec)
  have ck: "wt_bt_verify_checkfrag db ?vsT = (OK, ?vsT)"
    by (rule checkfrag_covered[where bits = "insert 3 (insert 2 (insert 1 (insert 0 {})))"])
       (simp_all add: pin_def vstuff0_def cl)
  have e: "verify_err True OK ?vsT = (OK, (vstuff0 False)\<lparr>frags := 4, errs := ?ds\<rparr>)"
    by (simp add: verify_err_def release_leaf_def page_out_def pin_def vstuff0_def)
  have fg: "frags ((vstuff0 False)\<lparr>frags := 4\<rparr>) = 4" by simp
  show ?thesis
    by (simp only: wt_bt_verify_def Let_def f fg im ba p d t ck e
          option.case prod.case simp_thms if_True if_False)
qed

text \<open>
  C10: the claim is that the walk fails with the \<open>record count\<close> diagnostic for
  every non-root page whose record count is not the one in the parent's reference.
  The source makes the test for every non-root page, before the switch over the
  page type, but leaves through \<open>goto err\<close> with \<open>ret\<close> still 0. At the file
  \<open>count_db\<close>, where the root's reference to the second leaf says 9 records and the
  leaf has 2, the diagnostic is emitted and \<open>__wt_bt_verify\<close> returns 0, whatever
  the fuel from 3 on.
\<close>

theorem record_count_mismatch_returns_ok:
  "wt_bt_verify (Suc (Suc (Suc n))) count_db False =
     Some (OK, (vstuff0 False)\<lparr>frags := 4, errs := [Record_count 3 2 9]\<rparr>) \<and>
   page_in count_db 1 512 = Some count_root \<and> p_icol count_root ! 1 = count_off \<and>
   o_records count_off = 9 \<and>
   page_in count_db (o_addr count_off) (o_size count_off) = Some col_leaf_b \<and>
   p_records col_leaf_b = 2"
proof -
  have d: "count_db = tree_db 2048
             (col_root\<lparr>h_level := 2, p_offs := [col_off_a, col_off_b\<lparr>o_records := 9\<rparr>],
                        p_icol := [col_off_a, col_off_b\<lparr>o_records := 9\<rparr>]\<rparr>)
             col_leaf_a (col_leaf_b\<lparr>h_start_recno := 4\<rparr>)"
    by (simp add: count_db_def count_root_def count_off_def col_root_def col_leaf_b_def page0_def)
  have v: "wt_bt_verify (Suc (Suc (Suc n))) count_db False =
             Some (OK, (vstuff0 False)\<lparr>frags := 4, errs := [Record_count 3 2 9]\<rparr>)"
    unfolding d using tree_db_verify[where l = 2 and fs = 2048 and c = 9 and s = 4 and n = n]
    by simp
  have r: "page_in count_db 1 512 = Some count_root" "p_icol count_root ! 1 = count_off"
    "o_records count_off = 9"
    "page_in count_db (o_addr count_off) (o_size count_off) = Some col_leaf_b"
    "p_records col_leaf_b = 2"
    by (simp_all add: count_db_def tree_db_def count_root_def count_off_def col_off_b_def
          col_leaf_b_def)
  show ?thesis by (intro conjI v r)
qed

text \<open>
  C7: the claim is that a page is accepted only with the level of its type, which
  \<open>__wt_bt_verify_page\<close> does check, and that during the walk every non-root page
  must have its parent's level minus 1. The source makes the second test, against
  the level handed down from the root, but leaves through \<open>goto err\<close> with \<open>ret\<close>
  still 0. At the file \<open>level_db\<close>, where the root has level 3 and its two leaves
  level 1, the \<open>tree level\<close> diagnostic is emitted for both leaves (expected level
  2) and \<open>__wt_bt_verify\<close> returns 0, whatever the fuel from 3 on.
\<close>

theorem tree_level_mismatch_returns_ok:
  "wt_bt_verify (Suc (Suc (Suc n))) level_db False =
     Some (OK, (vstuff0 False)\<lparr>frags := 4, errs := [Tree_level 2 1 2, Tree_level 3 1 2]\<rparr>) \<and>
   page_in level_db 1 512 = Some level_root \<and> h_level level_root = 3 \<and>
   p_icol level_root = [col_off_a, col_off_b] \<and>
   page_in level_db (o_addr col_off_a) (o_size col_off_a) = Some col_leaf_a \<and>
   page_in level_db (o_addr col_off_b) (o_size col_off_b) = Some col_leaf_b \<and>
   h_level col_leaf_a = 1 \<and> h_level col_leaf_b = 1"
proof -
  have d: "level_db = tree_db 2048
             (col_root\<lparr>h_level := 3, p_offs := [col_off_a, col_off_b\<lparr>o_records := 2\<rparr>],
                        p_icol := [col_off_a, col_off_b\<lparr>o_records := 2\<rparr>]\<rparr>)
             col_leaf_a (col_leaf_b\<lparr>h_start_recno := 4\<rparr>)"
    by (simp add: level_db_def level_root_def col_root_def col_off_b_def col_leaf_b_def page0_def)
  have v: "wt_bt_verify (Suc (Suc (Suc n))) level_db False =
             Some (OK, (vstuff0 False)\<lparr>frags := 4,
                         errs := [Tree_level 2 1 2, Tree_level 3 1 2]\<rparr>)"
    unfolding d using tree_db_verify[where l = 3 and fs = 2048 and c = 2 and s = 4 and n = n]
    by simp
  have r: "page_in level_db 1 512 = Some level_root" "h_level level_root = 3"
    "p_icol level_root = [col_off_a, col_off_b]"
    "page_in level_db (o_addr col_off_a) (o_size col_off_a) = Some col_leaf_a"
    "page_in level_db (o_addr col_off_b) (o_size col_off_b) = Some col_leaf_b"
    "h_level col_leaf_a = 1" "h_level col_leaf_b = 1"
    by (simp_all add: level_db_def tree_db_def level_root_def col_root_def col_off_a_def
          col_off_b_def col_leaf_a_def col_leaf_b_def)
  show ?thesis by (intro conjI v r)
qed

text \<open>
  C6: the claim is that in a column store the first record number of a child must
  be the running record number (the parent's first record number plus the record
  counts of the children before it, 1 at the root), that a mismatch fails with the
  \<open>starting record\<close> diagnostic, and that row and duplicate pages must have 0. The
  source makes these tests, but leaves through \<open>goto err\<close> with \<open>ret\<close> still 0. At
  the file \<open>recno_db\<close>, where the first leaf holds the records 1 to 3 and the second
  leaf starts at 5, the diagnostic is emitted with the running record number 4 and
  \<open>__wt_bt_verify\<close> returns 0, whatever the fuel from 3 on.
\<close>

theorem start_recno_mismatch_returns_ok:
  "wt_bt_verify (Suc (Suc (Suc n))) recno_db False =
     Some (OK, (vstuff0 False)\<lparr>frags := 4, errs := [Starting_record 3 5 4]\<rparr>) \<and>
   page_in recno_db 1 512 = Some col_root \<and> h_start_recno col_root = 1 \<and>
   p_icol col_root = [col_off_a, col_off_b] \<and> o_records col_off_a = 3 \<and>
   page_in recno_db (o_addr col_off_b) (o_size col_off_b) = Some recno_leaf \<and>
   h_start_recno recno_leaf = 5"
proof -
  have d: "recno_db = tree_db 2048
             (col_root\<lparr>h_level := 2, p_offs := [col_off_a, col_off_b\<lparr>o_records := 2\<rparr>],
                        p_icol := [col_off_a, col_off_b\<lparr>o_records := 2\<rparr>]\<rparr>)
             col_leaf_a (col_leaf_b\<lparr>h_start_recno := 5\<rparr>)"
    by (simp add: recno_db_def recno_leaf_def col_root_def col_off_b_def col_leaf_b_def page0_def)
  have v: "wt_bt_verify (Suc (Suc (Suc n))) recno_db False =
             Some (OK, (vstuff0 False)\<lparr>frags := 4, errs := [Starting_record 3 5 4]\<rparr>)"
    unfolding d using tree_db_verify[where l = 2 and fs = 2048 and c = 2 and s = 5 and n = n]
    by simp
  have r: "page_in recno_db 1 512 = Some col_root" "h_start_recno col_root = 1"
    "p_icol col_root = [col_off_a, col_off_b]" "o_records col_off_a = 3"
    "page_in recno_db (o_addr col_off_b) (o_size col_off_b) = Some recno_leaf"
    "h_start_recno recno_leaf = 5"
    by (simp_all add: recno_db_def tree_db_def recno_leaf_def col_root_def col_off_a_def
          col_off_b_def col_leaf_b_def)
  show ?thesis by (intro conjI v r)
qed

subsection \<open>Verification and the fragments of the file\<close>

text \<open>
  C3: the claim is that the verification returns 0 only if the ranges of the
  verified pages are pairwise disjoint and cover the whole file. The fragment map
  does reject an overlap and report every run of fragments that no page covers, but
  \<open>__wt_bt_verify\<close> returns 0 without it in two cases. At the file \<open>big_db\<close>, of
  \<open>2^31\<close> fragments, it emits \<open>file is too large to verify\<close> and leaves with
  \<open>ret\<close> still 0, whatever pages the file holds (\<open>read\<close>): no page is read, none
  is registered. At the file \<open>wrap_db\<close>, of \<open>2^32 + 4\<close> fragments, the count of
  fragments is cut to the 32 bits of \<open>vstuff.frags\<close>, which leaves 4: the four
  pages at the addresses 0 to 3 are verified, the scan looks at four bits, and the
  verification returns 0 with no diagnostic while no page covers the fragments from
  4 on (no page is read at an address from 4 on).
\<close>

theorem verify_ok_without_coverage:
  "wt_bt_verify n (big_db\<lparr>page_in := read\<rparr>) False =
     Some (OK, (vstuff0 False)\<lparr>frags := 2147483648, errs := [File_too_large]\<rparr>) \<and>
   file_size big_db div allocsize big_db = 2147483648 \<and>
   wt_bt_verify (Suc (Suc (Suc n))) wrap_db False = Some (OK, (vstuff0 False)\<lparr>frags := 4\<rparr>) \<and>
   file_size wrap_db div allocsize wrap_db = 4294967300 \<and>
   page_in wrap_db (addr + 4) len = None"
proof -
  have b: "wt_bt_verify n (big_db\<lparr>page_in := read\<rparr>) False =
             Some (OK, (vstuff0 False)\<lparr>frags := 2147483648, errs := [File_too_large]\<rparr>)"
    by (simp add: wt_bt_verify_def big_db_def db0_def vstuff0_def WT_OFF_TO_ADDR_def
          verify_err_def release_leaf_def errx_def Let_def)
  have d: "wrap_db = tree_db 2199023257600
             (col_root\<lparr>h_level := 2, p_offs := [col_off_a, col_off_b\<lparr>o_records := 2\<rparr>],
                        p_icol := [col_off_a, col_off_b\<lparr>o_records := 2\<rparr>]\<rparr>)
             col_leaf_a (col_leaf_b\<lparr>h_start_recno := 4\<rparr>)"
    by (simp add: wrap_db_def col_root_def col_off_b_def col_leaf_b_def page0_def)
  have e: "(vstuff0 False)\<lparr>frags := 4, errs := []\<rparr> = (vstuff0 False)\<lparr>frags := 4\<rparr>"
    by (simp add: vstuff0_def)
  have w: "wt_bt_verify (Suc (Suc (Suc n))) wrap_db False = Some (OK, (vstuff0 False)\<lparr>frags := 4\<rparr>)"
    unfolding d
    using tree_db_verify[where l = 2 and fs = 2199023257600 and c = 2 and s = 4 and n = n]
    by (simp add: e)
  have s: "file_size big_db div allocsize big_db = 2147483648"
    "file_size wrap_db div allocsize wrap_db = 4294967300"
    "page_in wrap_db (addr + 4) len = None"
    by (simp_all add: big_db_def wrap_db_def tree_db_def db0_def)
  show ?thesis by (intro conjI b w s)
qed

subsection \<open>The sort order of the items of a page\<close>

lemma sort_step_OK:
  assumes s: "sort_step db (Some func) addr item num sl1 = (OK, ds, sl2)"
    and ov: "is_ovfl_item (it_type item) \<longrightarrow> sl_ovfl (current sl1) = ovfl_in db (it_ovfl item)"
  shows "(key_class (it_type item) \<longrightarrow>
            (sl_item (last_key sl1) \<noteq> None \<longrightarrow>
               func (the (sl_item (last_key sl1))) (item_sort_bytes db item) < 0) \<and>
            sl_item (last_key sl2) = Some (item_sort_bytes db item) \<and>
            sl_item (last_data sl2) = sl_item (last_data sl1)) \<and>
         (data_class (it_type item) \<longrightarrow>
            (sl_item (last_data sl1) \<noteq> None \<longrightarrow>
               func (the (sl_item (last_data sl1))) (item_sort_bytes db item) < 0) \<and>
            sl_item (last_data sl2) = Some (item_sort_bytes db item) \<and>
            sl_item (last_key sl2) = sl_item (last_key sl1)) \<and>
         (\<not> key_class (it_type item) \<and> \<not> data_class (it_type item) \<longrightarrow>
            sl_item (last_key sl2) = sl_item (last_key sl1) \<and>
            sl_item (last_data sl2) = sl_item (last_data sl1))"
proof (cases "it_type item")
  case WT_ITEM_KEY
  then show ?thesis using s
    by (auto simp: sort_step_def item_dbt_def item_codec_def sort_check_def is_ovfl_item_def
          key_class_def data_class_def item_sort_bytes_def item_raw_def
          split: option.splits if_splits)
next
  case WT_ITEM_KEY_OVFL
  then show ?thesis using s ov
    by (auto simp: sort_step_def item_dbt_def item_codec_def sort_check_def is_ovfl_item_def
          key_class_def data_class_def item_sort_bytes_def item_raw_def
          split: option.splits if_splits)
next
  case WT_ITEM_KEY_DUP
  then show ?thesis using s
    by (auto simp: sort_step_def item_dbt_def item_codec_def sort_check_def is_ovfl_item_def
          key_class_def data_class_def item_sort_bytes_def item_raw_def
          split: option.splits if_splits)
next
  case WT_ITEM_KEY_DUP_OVFL
  then show ?thesis using s
    by (auto simp: sort_step_def item_dbt_def item_codec_def sort_check_def is_ovfl_item_def
          key_class_def data_class_def
          split: option.splits if_splits)
next
  case WT_ITEM_DATA
  then show ?thesis using s
    by (auto simp: sort_step_def item_dbt_def key_class_def data_class_def)
next
  case WT_ITEM_DATA_OVFL
  then show ?thesis using s
    by (auto simp: sort_step_def item_dbt_def key_class_def data_class_def)
next
  case WT_ITEM_DATA_DUP
  then show ?thesis using s
    by (auto simp: sort_step_def item_dbt_def item_codec_def sort_check_def is_ovfl_item_def
          key_class_def data_class_def item_sort_bytes_def item_raw_def
          split: option.splits if_splits)
next
  case WT_ITEM_DATA_DUP_OVFL
  then show ?thesis using s ov
    by (auto simp: sort_step_def item_dbt_def item_codec_def sort_check_def is_ovfl_item_def
          key_class_def data_class_def item_sort_bytes_def item_raw_def
          split: option.splits if_splits)
next
  case WT_ITEM_DEL
  then show ?thesis using s
    by (auto simp: sort_step_def item_dbt_def key_class_def data_class_def)
next
  case WT_ITEM_OFF
  then show ?thesis using s
    by (auto simp: sort_step_def item_dbt_def key_class_def data_class_def)
next
  case (WT_ITEM_OTHER k)
  then show ?thesis using s
    by (auto simp: sort_step_def item_dbt_def item_codec_def sort_check_def
          key_class_def data_class_def)
qed


lemma item_loop_Cons_OK:
  assumes "item_loop n db page func (item # items) num sl vs = Some (OK, sl', vs')"
  shows "\<exists>sl1 ds sl2 vs3.
           last_key sl1 = last_key sl \<and> last_data sl1 = last_data sl \<and>
           (is_ovfl_item (it_type item) \<longrightarrow> sl_ovfl (current sl1) = ovfl_in db (it_ovfl item)) \<and>
           sort_step db func (p_addr page) item (num + 1) sl1 = (OK, ds, sl2) \<and>
           item_loop n db page func items (num + 1) sl2 vs3 = Some (OK, sl', vs')"
proof -
  define ov where "ov =
    (if is_ovfl_item (it_type item) then
       (case ovfl_discard sl vs of
          (sl, vs) \<Rightarrow>
            (case ovfl_in db (it_ovfl item) of
               None \<Rightarrow> Some (Collab_error, sl, vs)
             | Some opage \<Rightarrow>
                 (case wt_bt_verify_page n db opage (pin vs) of
                    None \<Rightarrow> None
                  | Some (ret, vs) \<Rightarrow>
                      if ret \<noteq> OK
                      then Some (ret, sl\<lparr>current := (current sl)\<lparr>sl_ovfl := Some opage\<rparr>\<rparr>, vs)
                      else (case ovfl_size_check page item (num + 1) opage vs of
                              (ret, vs) \<Rightarrow>
                                Some (ret, sl\<lparr>current := (current sl)\<lparr>sl_ovfl := Some opage\<rparr>\<rparr>, vs)))))
     else Some (OK, sl, vs))"
  have a: "(case item_checks db page item (num + 1) of
              Some d \<Rightarrow> Some (WT_ERROR, sl, errx d vs)
            | None \<Rightarrow>
                (case ov of
                   None \<Rightarrow> None
                 | Some (ret, sl, vs) \<Rightarrow>
                     if ret \<noteq> OK then Some (ret, sl, vs)
                     else
                       (case sort_step db func (p_addr page) item (num + 1) sl of
                          (ret, ds, sl) \<Rightarrow>
                            if ret \<noteq> OK then Some (ret, sl, vs\<lparr>errs := errs vs @ ds\<rparr>)
                            else
                              (case (if h_type page = WT_PAGE_ROW_LEAF \<and> it_type item = WT_ITEM_OFF
                                     then wt_bt_verify_tree n db None 0 (WT_NOLEVEL db) (it_off item) vs
                                     else Some (OK, vs)) of
                                 None \<Rightarrow> None
                               | Some (ret, vs) \<Rightarrow>
                                   if ret \<noteq> OK then Some (ret, sl, vs)
                                   else item_loop n db page func items (num + 1) sl vs))))
           = Some (OK, sl', vs')"
    using assms unfolding ov_def by (simp add: item_loop.simps)
  have ic: "item_checks db page item (num + 1) = None"
    using a by (cases "item_checks db page item (num + 1)") auto
  from a ic obtain r1 sl1 vs1 where o: "ov = Some (r1, sl1, vs1)"
    by (cases ov) auto
  have r1: "r1 = OK" using a ic o by (auto split: if_splits)
  obtain r2 ds sl2 where ss: "sort_step db func (p_addr page) item (num + 1) sl1 = (r2, ds, sl2)"
    by (cases "sort_step db func (p_addr page) item (num + 1) sl1") auto
  have r2: "r2 = OK" using a ic o r1 ss by (auto split: if_splits)
  from a ic o r1 ss r2 obtain r3 vs3 where
    t: "(if h_type page = WT_PAGE_ROW_LEAF \<and> it_type item = WT_ITEM_OFF
         then wt_bt_verify_tree n db None 0 (WT_NOLEVEL db) (it_off item) vs1
         else Some (OK, vs1)) = Some (r3, vs3)"
    by (cases "if h_type page = WT_PAGE_ROW_LEAF \<and> it_type item = WT_ITEM_OFF
               then wt_bt_verify_tree n db None 0 (WT_NOLEVEL db) (it_off item) vs1
               else Some (OK, vs1)") auto
  have r3: "r3 = OK" and l: "item_loop n db page func items (num + 1) sl2 vs3 = Some (OK, sl', vs')"
    using a ic o r1 ss r2 t by (auto split: if_splits)
  have k: "last_key sl1 = last_key sl \<and> last_data sl1 = last_data sl \<and>
           (is_ovfl_item (it_type item) \<longrightarrow> sl_ovfl (current sl1) = ovfl_in db (it_ovfl item))"
  proof (cases "is_ovfl_item (it_type item)")
    case False
    then show ?thesis using o by (simp add: ov_def)
  next
    case True
    obtain opage where op: "ovfl_in db (it_ovfl item) = Some opage"
      using o r1 True by (cases "ovfl_in db (it_ovfl item)") (auto simp: ov_def ovfl_discard_def)
    have "sl1 = (fst (ovfl_discard sl vs))\<lparr>current :=
                  (current (fst (ovfl_discard sl vs)))\<lparr>sl_ovfl := Some opage\<rparr>\<rparr>"
      using o r1 True op
      by (auto simp: ov_def case_prod_beta split: option.splits if_splits)
    then show ?thesis using op by (simp add: ovfl_discard_def)
  qed
  show ?thesis using k ss r2 l by blast
qed

lemma last_opt_snoc: "last_opt (xs @ [x]) = Some x"
  by (simp add: last_opt_def)

lemma ascending_snoc:
  "ascending func (xs @ [x]) \<longleftrightarrow>
     ascending func xs \<and> (last_opt xs \<noteq> None \<longrightarrow> func (the (last_opt xs)) x < 0)"
  by (cases xs rule: rev_cases)
     (auto simp: ascending_def last_opt_def successively_append_iff)

lemma sort_inv_step:
  assumes inv: "sort_inv db func pre sl"
    and k: "last_key sl1 = last_key sl" "last_data sl1 = last_data sl"
    and ov: "is_ovfl_item (it_type item) \<longrightarrow> sl_ovfl (current sl1) = ovfl_in db (it_ovfl item)"
    and s: "sort_step db (Some func) addr item num sl1 = (OK, ds, sl2)"
  shows "sort_inv db func (pre @ [item]) sl2"
proof -
  note st = sort_step_OK[OF s ov]
  consider (key) "key_class (it_type item)" | (dup) "data_class (it_type item)"
    | (other) "\<not> key_class (it_type item)" "\<not> data_class (it_type item)" by blast
  then show ?thesis
  proof cases
    case key
    then have nd: "\<not> data_class (it_type item)" by (auto simp: key_class_def data_class_def)
    show ?thesis
      using inv st key nd k
      by (simp add: sort_inv_def keys_of_def dups_of_def last_opt_snoc ascending_snoc)
  next
    case dup
    then have nk: "\<not> key_class (it_type item)" by (auto simp: key_class_def data_class_def)
    show ?thesis
      using inv st dup nk k
      by (simp add: sort_inv_def keys_of_def dups_of_def last_opt_snoc ascending_snoc)
  next
    case other
    then show ?thesis
      using inv st k by (simp add: sort_inv_def keys_of_def dups_of_def)
  qed
qed

lemma item_loop_sort_inv:
  "item_loop n db page (Some func) items num sl vs = Some (OK, sl', vs') \<Longrightarrow>
   sort_inv db func pre sl \<Longrightarrow> sort_inv db func (pre @ items) sl'"
proof (induction items arbitrary: num sl vs pre)
  case Nil
  then show ?case by (simp add: item_loop.simps)
next
  case (Cons item items)
  from item_loop_Cons_OK[OF Cons.prems(1)] obtain sl1 ds sl2 vs3 where
    k: "last_key sl1 = last_key sl" "last_data sl1 = last_data sl"
    and ov: "is_ovfl_item (it_type item) \<longrightarrow> sl_ovfl (current sl1) = ovfl_in db (it_ovfl item)"
    and s: "sort_step db (Some func) (p_addr page) item (num + 1) sl1 = (OK, ds, sl2)"
    and l: "item_loop n db page (Some func) items (num + 1) sl2 vs3 = Some (OK, sl', vs')"
    by blast
  have "sort_inv db func (pre @ [item]) sl2"
    by (rule sort_inv_step[OF Cons.prems(2) k ov s])
  from Cons.IH[OF l this] show ?case by simp
qed

lemma item_func_collation:
  "row_or_dup t \<Longrightarrow> item_func db t = Some (Some (collation db t))"
  by (auto simp: row_or_dup_def item_func_def collation_def)

lemma page_item_sorted:
  assumes t: "row_or_dup (h_type page)"
    and r: "wt_bt_verify_page_item n db page vs = Some (OK, vs')"
  shows "ascending (collation db (h_type page)) (keys_of db (p_items page)) \<and>
         ascending (collation db (h_type page)) (dups_of db (p_items page))"
proof -
  let ?sl0 = "\<lparr>current = slot0, last_data = slot0, last_key = slot0\<rparr>"
  note a = r[unfolded wt_bt_verify_page_item.simps item_func_collation[OF t]]
  from a obtain vs0 where al: "item_scr_alloc db vs = Some vs0"
    by (cases "item_scr_alloc db vs") auto
  from a al obtain r1 sl1 vs1 where
    l: "item_loop n db page (Some (collation db (h_type page))) (p_items page) 0 ?sl0 vs0 =
          Some (r1, sl1, vs1)"
    by (cases "item_loop n db page (Some (collation db (h_type page))) (p_items page) 0 ?sl0 vs0")
       auto
  have r1: "r1 = OK" using a al l by simp
  have i0: "sort_inv db (collation db (h_type page)) [] ?sl0"
    by (simp add: sort_inv_def keys_of_def dups_of_def last_opt_def slot0_def ascending_def)
  from item_loop_sort_inv[OF l[unfolded r1] i0] show ?thesis
    by (simp add: sort_inv_def)
qed


text \<open>
  C5: when the walk of the items of a row or duplicate page returns 0, the key items
  (\<open>KEY\<close>, \<open>KEY_DUP\<close>, \<open>KEY_OVFL\<close>) are strictly ascending in page order, each
  against the key item before it, and so are the duplicate data items (\<open>DATA_DUP\<close>,
  \<open>DATA_DUP_OVFL\<close>), under the comparison function of the page's type and on the
  decoded bytes. The comparison of an item with the last item of its class is an
  error (\<open>incorrectly sorted\<close>, with the two item numbers) exactly when the result
  is 0 or more, and otherwise the item becomes the last of its class. \<open>DATA\<close>,
  \<open>DATA_OVFL\<close>, \<open>DEL\<close> and \<open>OFF\<close> items are passed over: no comparison, no
  change to the three pointers.
\<close>

theorem sort_order:
  "(row_or_dup (h_type page) \<and> wt_bt_verify_page_item n db page vs = Some (OK, vs') \<longrightarrow>
      ascending (collation db (h_type page)) (keys_of db (p_items page)) \<and>
      ascending (collation db (h_type page)) (dups_of db (p_items page))) \<and>
   (key_class t \<and> sl_item (last_key sl) = Some prev \<and> sl_item (current sl) = Some cur \<longrightarrow>
      sort_check (Some func) addr t sl =
        (if 0 \<le> func prev cur
         then (WT_ERROR,
               [Incorrectly_sorted (sl_indx (last_key sl)) (sl_indx (current sl)) addr], sl)
         else (OK, [], sl\<lparr>last_key := current sl, current := last_key sl\<rparr>))) \<and>
   (data_class t \<and> sl_item (last_data sl) = Some prev \<and> sl_item (current sl) = Some cur \<longrightarrow>
      sort_check (Some func) addr t sl =
        (if 0 \<le> func prev cur
         then (WT_ERROR,
               [Incorrectly_sorted (sl_indx (last_data sl)) (sl_indx (current sl)) addr], sl)
         else (OK, [], sl\<lparr>last_data := current sl, current := last_data sl\<rparr>))) \<and>
   (it_type item \<in> {WT_ITEM_DATA, WT_ITEM_DATA_OVFL, WT_ITEM_DEL, WT_ITEM_OFF} \<longrightarrow>
      sort_step db (Some func) addr item num sl = (OK, [], sl))"
proof (intro conjI impI)
  assume a: "row_or_dup (h_type page) \<and> wt_bt_verify_page_item n db page vs = Some (OK, vs')"
  note p = page_item_sorted[OF conjunct1[OF a] conjunct2[OF a]]
  show "ascending (collation db (h_type page)) (keys_of db (p_items page))"
    by (rule p[THEN conjunct1])
  show "ascending (collation db (h_type page)) (dups_of db (p_items page))"
    by (rule p[THEN conjunct2])
next
  assume "key_class t \<and> sl_item (last_key sl) = Some prev \<and> sl_item (current sl) = Some cur"
  then show "sort_check (Some func) addr t sl =
        (if 0 \<le> func prev cur
         then (WT_ERROR,
               [Incorrectly_sorted (sl_indx (last_key sl)) (sl_indx (current sl)) addr], sl)
         else (OK, [], sl\<lparr>last_key := current sl, current := last_key sl\<rparr>))"
    by (auto simp: sort_check_def key_class_def)
next
  assume "data_class t \<and> sl_item (last_data sl) = Some prev \<and> sl_item (current sl) = Some cur"
  then show "sort_check (Some func) addr t sl =
        (if 0 \<le> func prev cur
         then (WT_ERROR,
               [Incorrectly_sorted (sl_indx (last_data sl)) (sl_indx (current sl)) addr], sl)
         else (OK, [], sl\<lparr>last_data := current sl, current := last_data sl\<rparr>))"
    by (auto simp: sort_check_def data_class_def)
next
  assume "it_type item \<in> {WT_ITEM_DATA, WT_ITEM_DATA_OVFL, WT_ITEM_DEL, WT_ITEM_OFF}"
  then show "sort_step db (Some func) addr item num sl = (OK, [], sl)"
    by (auto simp: sort_step_def item_dbt_def)
qed

lemma sorted_page_item:
  "wt_bt_verify_page_item n db0 sorted_page (vstuff0 False) = Some (OK, vstuff0 False)"
  by (simp add: wt_bt_verify_page_item.simps item_scr_alloc_def item_func_def item_loop.simps
        item_checks_def item_vs_page_def item_len_bad_def is_ovfl_item_def sort_step_def
        item_dbt_def item_codec_def sort_check_def item_err_def slot0_def
        sorted_page_def row_child_def page0_def mk_item_def db0_def Let_def)

theorem sort_order_witness:
  "row_or_dup (h_type sorted_page) \<and>
   wt_bt_verify_page_item 0 db0 sorted_page (vstuff0 False) = Some (OK, vstuff0 False) \<and>
   keys_of db0 (p_items sorted_page) = [[97], [98]] \<and>
   ascending (collation db0 (h_type sorted_page)) (keys_of db0 (p_items sorted_page))"
proof -
  have a: "row_or_dup (h_type sorted_page)"
    by (simp add: row_or_dup_def sorted_page_def row_child_def)
  have k: "keys_of db0 (p_items sorted_page) = [[97], [98]]"
    by (simp add: keys_of_def sorted_page_def mk_item_def key_class_def item_sort_bytes_def
          item_codec_def item_raw_def is_ovfl_item_def db0_def)
  note t = sort_order[of sorted_page 0 db0 "vstuff0 False" "vstuff0 False",
      THEN conjunct1, THEN mp, OF conjI[OF a sorted_page_item], THEN conjunct1]
  show ?thesis by (intro conjI a sorted_page_item k t)
qed

end
